theory Spec2Isabelle
  imports Main
begin

section \<open>Data model\<close>

text \<open>
  Identifiers are abstracted to numbers and names: a UUID is a natural number, a
  namespace and a shard id are strings. Shard-key bounds are BSON objects in the
  source; here they are values of a linearly ordered type \<open>'k\<close>, compared as
  the \<open>$lt\<close> / \<open>$gt\<close> query operators compare them.
\<close>

type_synonym UUID = nat
type_synonym NamespaceString = string
type_synonym ShardId = string

datatype error =
    DuplicateKey
  | Location nat
  | ShardNotFound
  | RemoteCommandFailed
  | RefreshFailed
  | BadValue
  | InvariantFailure

datatype CleanWhenEnum = kNow | kDelayed

record 'k ChunkRange =
  getMin :: 'k
  getMax :: 'k

text \<open>
  Modelled from the spec: the generated classes \<open>RangeDeletionTask\<close> and
  \<open>MigrationCoordinatorDocument\<close> are not among the sources. Their fields are the ones
  the spec lists, under the names of the getters the sources call. A
  \<open>RangeDeletionTask\<close> is a document of \<open>config.rangeDeletions\<close>; its field
  \<open>pending\<close> is optional, and \<open>None\<close> is an absent field.
\<close>

record 'k RangeDeletionTask =
  getId :: UUID
  getNss :: NamespaceString
  getCollectionUuid :: UUID
  getRange :: "'k ChunkRange"
  getPending :: "bool option"
  getWhenToClean :: CleanWhenEnum

record 'k MigrationCoordinatorDocument =
  getId_doc :: UUID
  getNss_doc :: NamespaceString
  getCollectionUuid_doc :: UUID
  getDonorShardId :: ShardId
  getRecipientShardId :: ShardId
  getRange_doc :: "'k ChunkRange"

text \<open>A query is the predicate it denotes on the documents of a collection.\<close>

type_synonym 'd Query = "'d \<Rightarrow> bool"

section \<open>The persistent task store\<close>

text \<open>
  Modelled from the spec: \<open>PersistentTaskStore\<close> is not among the sources. The spec
  describes it as a persisted, queryable record store with insert-with-duplicate-detection
  on the id, delete-by-predicate, update-by-predicate, counting and bulk enumeration with
  an early-stop visitor. A store is the list of its documents, in insertion order.
\<close>

definition store_add :: "('d \<Rightarrow> UUID) \<Rightarrow> 'd \<Rightarrow> 'd list \<Rightarrow> error + 'd list" where
  "store_add idOf d s =
     (if \<exists>d' \<in> set s. idOf d' = idOf d then Inl DuplicateKey else Inr (s @ [d]))"

text \<open>Modelled from the spec: \<open>remove\<close> deletes every document that matches.\<close>

definition store_remove :: "'d Query \<Rightarrow> 'd list \<Rightarrow> 'd list" where
  "store_remove q s = filter (\<lambda>d. \<not> q d) s"

text \<open>Modelled from the spec: \<open>count\<close> is the number of documents that match.\<close>

definition store_count :: "'d Query \<Rightarrow> 'd list \<Rightarrow> nat" where
  "store_count q s = length (filter q s)"

text \<open>
  A single-document write (\<open>multi\<close> false) touches the first document that matches;
  without a match it does nothing (\<open>upsert\<close> false).
\<close>

fun update_first :: "'d Query \<Rightarrow> ('d \<Rightarrow> 'd) \<Rightarrow> 'd list \<Rightarrow> 'd list" where
  "update_first q u [] = []"
| "update_first q u (d # ds) = (if q d then u d # ds else d # update_first q u ds)"

fun delete_first :: "'d Query \<Rightarrow> 'd list \<Rightarrow> 'd list" where
  "delete_first q [] = []"
| "delete_first q (d # ds) = (if q d then ds else d # delete_first q ds)"

text \<open>
  Modelled from the spec: \<open>update\<close> is update-by-predicate, a single-document write
  like the update command the sources send to the recipient.
\<close>

definition store_update :: "'d Query \<Rightarrow> ('d \<Rightarrow> 'd) \<Rightarrow> 'd list \<Rightarrow> 'd list" where
  "store_update q u s = update_first q u s"

text \<open>
  Modelled from the spec: \<open>forEach\<close> hands the documents matching the query to the
  visitor, one after the other. The visitor works on a state \<open>'s\<close>; it may raise (the
  enumeration stops and the error propagates, with the state as the visitor left it) or
  return whether the enumeration goes on.
\<close>

fun forEach_docs :: "('d \<Rightarrow> 's \<Rightarrow> 's \<times> (error + bool)) \<Rightarrow> 'd list \<Rightarrow> 's \<Rightarrow> 's \<times> error option" where
  "forEach_docs visit [] st = (st, None)"
| "forEach_docs visit (d # ds) st =
     (case visit d st of
        (st', Inl e) \<Rightarrow> (st', Some e)
      | (st', Inr continue) \<Rightarrow> if continue then forEach_docs visit ds st' else (st', None))"

definition store_forEach ::
  "'d Query \<Rightarrow> ('d \<Rightarrow> 's \<Rightarrow> 's \<times> (error + bool)) \<Rightarrow> 'd list \<Rightarrow> 's \<Rightarrow> 's \<times> error option" where
  "store_forEach q visit s st = forEach_docs visit (filter q s) st"

text \<open>The \<open>_id\<close> index keeps the ids of a store distinct.\<close>

definition unique_ids :: "('d \<Rightarrow> UUID) \<Rightarrow> 'd list \<Rightarrow> bool" where
  "unique_ids idOf s = distinct (map idOf s)"

section \<open>A node\<close>

datatype CleanWhen = CSR_kNow | CSR_kDelayed

text \<open>
  What an operation context reaches on the node it runs on: the two persisted
  collections, the local catalog (the uuid of each collection that exists), whether the
  filtering metadata of a collection is known (\<open>getCurrentMetadataIfKnown\<close>), and the
  ranges handed to \<open>cleanUpRange\<close> so far.
\<close>

record 'k node =
  rangeDeletions :: "'k RangeDeletionTask list"
  migrationCoordinators :: "'k MigrationCoordinatorDocument list"
  collections :: "NamespaceString \<Rightarrow> UUID option"
  filteringMetadataKnown :: "NamespaceString \<Rightarrow> bool"
  cleanUpRangeCalls :: "(NamespaceString \<times> 'k ChunkRange \<times> CleanWhen) list"

section \<open>migration\_util.cpp\<close>

subsection \<open>Conflict detection\<close>

definition overlappingRangeQuery ::
  "('k::linorder) ChunkRange \<Rightarrow> UUID \<Rightarrow> 'k RangeDeletionTask Query" where
  "overlappingRangeQuery rng uuid =
     (\<lambda>t. getCollectionUuid t = uuid
          \<and> getMin (getRange t) < getMax rng
          \<and> getMax (getRange t) > getMin rng)"

definition checkForConflictingDeletions ::
  "('k::linorder) node \<Rightarrow> 'k ChunkRange \<Rightarrow> UUID \<Rightarrow> bool" where
  "checkForConflictingDeletions opCtx rng uuid =
     (store_count (overlappingRangeQuery rng uuid) (rangeDeletions opCtx) > 0)"

subsection \<open>Submitting a range deletion\<close>

text \<open>
  \<open>submitRangeDeletionTask\<close> returns the node (only \<open>cleanUpRange\<close> changes it) and
  its boolean result. The three early returns come in the order of the source. The
  notification \<open>cleanUpRange\<close> returns is logged or abandoned and decides nothing, and
  the log lines are left out.
\<close>

definition submitRangeDeletionTask ::
  "'k node \<Rightarrow> 'k RangeDeletionTask \<Rightarrow> 'k node \<times> bool" where
  "submitRangeDeletionTask opCtx deletionTask =
     (let whenToClean = (if getWhenToClean deletionTask = kNow then CSR_kNow else CSR_kDelayed)
      in case collections opCtx (getNss deletionTask) of
           None \<Rightarrow> (opCtx, False)
         | Some uuid \<Rightarrow>
             if uuid \<noteq> getCollectionUuid deletionTask then (opCtx, False)
             else if \<not> filteringMetadataKnown opCtx (getNss deletionTask) then (opCtx, False)
             else (opCtx\<lparr>cleanUpRangeCalls := cleanUpRangeCalls opCtx
                          @ [(getNss deletionTask, getRange deletionTask, whenToClean)]\<rparr>, True))"

text \<open>
  Modelled from the spec: \<open>forceShardFilteringMetadataRefresh\<close> is not among the
  sources. The spec describes it as a round trip to the authoritative source that
  refreshes the node's view of the collection's filtering metadata and may fail, the
  failure surfacing as an exception. These are its two outcomes: it raises, or it
  returns with the filtering metadata of the namespace known. Which of the two happens
  for a namespace is a parameter: the error raised, or \<open>None\<close> for a normal return.
\<close>

type_synonym RefreshSource = "NamespaceString \<Rightarrow> error option"

definition forceShardFilteringMetadataRefresh ::
  "RefreshSource \<Rightarrow> 'k node \<Rightarrow> NamespaceString \<Rightarrow> error + 'k node" where
  "forceShardFilteringMetadataRefresh src opCtx nss =
     (case src nss of
        Some e \<Rightarrow> Inl e
      | None \<Rightarrow>
          Inr (opCtx\<lparr>filteringMetadataKnown := (filteringMetadataKnown opCtx)(nss := True)\<rparr>))"

text \<open>
  \<open>Query(range.toBSON())\<close>: a document matches when every field of the serialised task
  has the same value in it. An absent \<open>pending\<close> is not serialised and constrains
  nothing.
\<close>

definition Query_toBSON :: "'k RangeDeletionTask \<Rightarrow> 'k RangeDeletionTask Query" where
  "Query_toBSON task =
     (\<lambda>d. getId d = getId task
          \<and> getNss d = getNss task
          \<and> getCollectionUuid d = getCollectionUuid task
          \<and> getRange d = getRange task
          \<and> getWhenToClean d = getWhenToClean task
          \<and> (case getPending task of None \<Rightarrow> True | Some b \<Rightarrow> getPending d = Some b))"

definition pendingAbsentQuery :: "'k RangeDeletionTask Query" where
  "pendingAbsentQuery = (\<lambda>t. getPending t = None)"

text \<open>
  The visitor of \<open>submitPendingDeletions\<close>; its state is the node and the captured
  vector \<open>invalidRanges\<close>.
\<close>

definition submitPendingDeletions_visitor ::
  "RefreshSource \<Rightarrow> 'k RangeDeletionTask
     \<Rightarrow> 'k node \<times> 'k RangeDeletionTask list
     \<Rightarrow> ('k node \<times> 'k RangeDeletionTask list) \<times> (error + bool)" where
  "submitPendingDeletions_visitor src deletionTask st =
     (case st of (opCtx, invalidRanges) \<Rightarrow>
        (case forceShardFilteringMetadataRefresh src opCtx (getNss deletionTask) of
           Inl e \<Rightarrow> ((opCtx, invalidRanges), Inl e)
         | Inr opCtx1 \<Rightarrow>
             (case submitRangeDeletionTask opCtx1 deletionTask of
                (opCtx2, taskValid) \<Rightarrow>
                  ((opCtx2, if \<not> taskValid then invalidRanges @ [deletionTask] else invalidRanges),
                   Inr True))))"

fun removeInvalidRanges :: "'k RangeDeletionTask list \<Rightarrow> 'k node \<Rightarrow> 'k node" where
  "removeInvalidRanges [] opCtx = opCtx"
| "removeInvalidRanges (r # rs) opCtx =
     removeInvalidRanges rs
       (opCtx\<lparr>rangeDeletions := store_remove (Query_toBSON r) (rangeDeletions opCtx)\<rparr>)"

text \<open>
  The enumeration of \<open>submitPendingDeletions\<close>, and the whole routine: the node it
  leaves, and the error it raised if it did.
\<close>

definition submitPendingDeletions_enumerate ::
  "RefreshSource \<Rightarrow> 'k node \<Rightarrow> ('k node \<times> 'k RangeDeletionTask list) \<times> error option" where
  "submitPendingDeletions_enumerate src opCtx =
     store_forEach pendingAbsentQuery (submitPendingDeletions_visitor src)
       (rangeDeletions opCtx) (opCtx, [])"

definition submitPendingDeletions :: "RefreshSource \<Rightarrow> 'k node \<Rightarrow> 'k node \<times> error option" where
  "submitPendingDeletions src opCtx =
     (case submitPendingDeletions_enumerate src opCtx of
        ((opCtx', invalidRanges), Some e) \<Rightarrow> (opCtx', Some e)
      | ((opCtx', invalidRanges), None) \<Rightarrow> (removeInvalidRanges invalidRanges opCtx', None))"

subsection \<open>Persisting and removing documents on the local node\<close>

text \<open>
  The two inserts return the node they leave and the error raised, if any. A
  \<open>DuplicateKey\<close> exception of \<open>store.add\<close> is caught and replaced by \<open>uasserted\<close>
  with the location code; any other exception passes.
\<close>

definition persistMigrationCoordinatorLocally ::
  "'k node \<Rightarrow> 'k MigrationCoordinatorDocument \<Rightarrow> 'k node \<times> error option" where
  "persistMigrationCoordinatorLocally opCtx migrationDoc =
     (case store_add getId_doc migrationDoc (migrationCoordinators opCtx) of
        Inl e \<Rightarrow> (opCtx, Some (if e = DuplicateKey then Location 31374 else e))
      | Inr s \<Rightarrow> (opCtx\<lparr>migrationCoordinators := s\<rparr>, None))"

definition persistRangeDeletionTaskLocally ::
  "'k node \<Rightarrow> 'k RangeDeletionTask \<Rightarrow> 'k node \<times> error option" where
  "persistRangeDeletionTaskLocally opCtx deletionTask =
     (case store_add getId deletionTask (rangeDeletions opCtx) of
        Inl e \<Rightarrow> (opCtx, Some (if e = DuplicateKey then Location 31375 else e))
      | Inr s \<Rightarrow> (opCtx\<lparr>rangeDeletions := s\<rparr>, None))"

definition deleteRangeDeletionTaskLocally :: "'k node \<Rightarrow> UUID \<Rightarrow> 'k node" where
  "deleteRangeDeletionTaskLocally opCtx deletionTaskId =
     opCtx\<lparr>rangeDeletions :=
       store_remove (\<lambda>t. getId t = deletionTaskId) (rangeDeletions opCtx)\<rparr>"

definition deleteRangeDeletionTasksForCollectionLocally :: "'k node \<Rightarrow> UUID \<Rightarrow> 'k node" where
  "deleteRangeDeletionTasksForCollectionLocally opCtx collectionUuid =
     opCtx\<lparr>rangeDeletions :=
       store_remove (\<lambda>t. getCollectionUuid t = collectionUuid) (rangeDeletions opCtx)\<rparr>"

text \<open>The update document \<open>{$unset: {pending: ""}}\<close>.\<close>

definition unsetPending :: "'k RangeDeletionTask \<Rightarrow> 'k RangeDeletionTask" where
  "unsetPending t = t\<lparr>getPending := None\<rparr>"

definition markAsReadyRangeDeletionTaskLocally :: "'k node \<Rightarrow> UUID \<Rightarrow> 'k node" where
  "markAsReadyRangeDeletionTaskLocally opCtx migrationId =
     opCtx\<lparr>rangeDeletions :=
       store_update (\<lambda>t. getId t = migrationId) unsetPending (rangeDeletions opCtx)\<rparr>"

subsection \<open>Commands sent to the recipient\<close>

text \<open>
  A write command on \<open>config.rangeDeletions\<close>: a delete entry (query, multi) or an
  update entry (query, modification, multi; upsert is false in every command built
  here). Running it on a store applies it to the first match, or to every match when
  multi is set.
\<close>

datatype 'd write_op =
    DeleteOp "'d Query" bool
  | UpdateOp "'d Query" "'d \<Rightarrow> 'd" bool

fun runCommand :: "'d write_op \<Rightarrow> 'd list \<Rightarrow> 'd list" where
  "runCommand (DeleteOp q multi) s = (if multi then filter (\<lambda>d. \<not> q d) s else delete_first q s)"
| "runCommand (UpdateOp q u multi) s =
     (if multi then map (\<lambda>d. if q d then u d else d) s else update_first q u s)"

text \<open>
  The cluster as the donor's operation context sees it: the local node, the other
  nodes, which the shard registry resolves from their shard ids, and the status with
  which a shard answers a command (\<open>None\<close> is success). The recipient of a migration
  is another node than the donor. \<open>sendToRecipient\<close> raises when the registry does not
  know the shard or when the answer is not a success; on success the command has run on
  the recipient's \<open>config.rangeDeletions\<close>.
\<close>

record 'k cluster =
  localNode :: "'k node"
  shardRegistry :: "ShardId \<Rightarrow> 'k node option"
  responseStatus :: "ShardId \<Rightarrow> error option"

definition sendToRecipient ::
  "'k cluster \<Rightarrow> ShardId \<Rightarrow> 'k RangeDeletionTask write_op \<Rightarrow> error + 'k cluster" where
  "sendToRecipient opCtx recipientId cmd =
     (case shardRegistry opCtx recipientId of
        None \<Rightarrow> Inl ShardNotFound
      | Some recipientShard \<Rightarrow>
          (case responseStatus opCtx recipientId of
             Some e \<Rightarrow> Inl e
           | None \<Rightarrow>
               Inr (opCtx\<lparr>shardRegistry := (shardRegistry opCtx)(recipientId :=
                      Some (recipientShard\<lparr>rangeDeletions :=
                              runCommand cmd (rangeDeletions recipientShard)\<rparr>))\<rparr>)))"

definition deleteRangeDeletionTaskOnRecipient ::
  "'k cluster \<Rightarrow> ShardId \<Rightarrow> UUID \<Rightarrow> error + 'k cluster" where
  "deleteRangeDeletionTaskOnRecipient opCtx recipientId migrationId =
     sendToRecipient opCtx recipientId (DeleteOp (\<lambda>t. getId t = migrationId) False)"

definition markAsReadyRangeDeletionTaskOnRecipient ::
  "'k cluster \<Rightarrow> ShardId \<Rightarrow> UUID \<Rightarrow> error + 'k cluster" where
  "markAsReadyRangeDeletionTaskOnRecipient opCtx recipientId migrationId =
     sendToRecipient opCtx recipientId
       (UpdateOp (\<lambda>t. getId t = migrationId) unsetPending False)"

section \<open>MigrationCoordinator\<close>

record 'k MigrationCoordinator =
  migrationInfo :: "'k MigrationCoordinatorDocument"

text \<open>
  Modelled from the spec: the bodies of \<open>commitMigrationOnDonorAndRecipient\<close> and
  \<open>abortMigrationOnDonorAndRecipient\<close> are not among the sources (only the class
  declaration is). The spec says of commit: it sends the delete of the range deletion
  task to the recipient for this migration id, then locally clears the pending flag of
  the donor's task; and of abort: it locally deletes the donor's task for this
  migration id, then sends the clearing of the pending flag to the recipient.
\<close>

definition commitMigrationOnDonorAndRecipient ::
  "'k MigrationCoordinator \<Rightarrow> 'k cluster \<Rightarrow> error + 'k cluster" where
  "commitMigrationOnDonorAndRecipient this opCtx =
     (case deleteRangeDeletionTaskOnRecipient opCtx
             (getRecipientShardId (migrationInfo this)) (getId_doc (migrationInfo this)) of
        Inl e \<Rightarrow> Inl e
      | Inr opCtx1 \<Rightarrow>
          Inr (opCtx1\<lparr>localNode :=
                 markAsReadyRangeDeletionTaskLocally (localNode opCtx1)
                   (getId_doc (migrationInfo this))\<rparr>))"

text \<open>
  Modelled from the spec: \<open>abortMigrationOnDonorAndRecipient\<close>, whose body is not among
  the sources, as described above: the local delete, then the command to the recipient.
\<close>

definition abortMigrationOnDonorAndRecipient ::
  "'k MigrationCoordinator \<Rightarrow> 'k cluster \<Rightarrow> error + 'k cluster" where
  "abortMigrationOnDonorAndRecipient this opCtx =
     (let opCtx1 = opCtx\<lparr>localNode :=
                     deleteRangeDeletionTaskLocally (localNode opCtx)
                       (getId_doc (migrationInfo this))\<rparr>
      in markAsReadyRangeDeletionTaskOnRecipient opCtx1
           (getRecipientShardId (migrationInfo this)) (getId_doc (migrationInfo this)))"

section \<open>read\_write\_concern\_defaults.cpp\<close>

datatype ReadConcernLevel =
    kLocalReadConcern
  | kMajorityReadConcern
  | kLinearizableReadConcern
  | kAvailableReadConcern
  | kSnapshotReadConcern

text \<open>
  Modelled from the spec: \<open>ReadConcernArgs\<close>, \<open>WriteConcernOptions\<close> and the generated
  \<open>RWConcernDefault\<close> are not among the sources. The records hold the fields the
  sources read and write, under the names the sources use; times are numbers.
\<close>

record ReadConcern =
  getLevel :: ReadConcernLevel
  getArgsOpTime :: "nat option"
  getArgsAfterClusterTime :: "nat option"
  getArgsAtClusterTime :: "nat option"

record WriteConcern =
  wMode :: string
  wNumNodes :: int

record RWConcernDefault =
  getDefaultReadConcern :: "ReadConcern option"
  getDefaultWriteConcern :: "WriteConcern option"
  getEpoch :: "nat option"
  getSetTime :: "nat option"
  getLocalSetTime :: "nat option"

definition kReadConcernLevelsDisallowedAsDefault :: "ReadConcernLevel list" where
  "kReadConcernLevelsDisallowedAsDefault = [kSnapshotReadConcern, kLinearizableReadConcern]"

fun levelNotIn :: "ReadConcernLevel \<Rightarrow> ReadConcernLevel list \<Rightarrow> bool" where
  "levelNotIn level [] = True"
| "levelNotIn level (bannedLevel # rest) =
     (if level = bannedLevel then False else levelNotIn level rest)"

definition isSuitableReadConcernLevel :: "ReadConcernLevel \<Rightarrow> bool" where
  "isSuitableReadConcernLevel level = levelNotIn level kReadConcernLevelsDisallowedAsDefault"

text \<open>The two overloads of \<open>checkSuitabilityAsDefault\<close>; \<open>None\<close> is a normal return.\<close>

definition checkSuitabilityAsDefault_rc :: "ReadConcern \<Rightarrow> error option" where
  "checkSuitabilityAsDefault_rc rc =
     (if \<not> isSuitableReadConcernLevel (getLevel rc) then Some BadValue
      else if getArgsOpTime rc \<noteq> None then Some BadValue
      else if getArgsAfterClusterTime rc \<noteq> None then Some BadValue
      else if getArgsAtClusterTime rc \<noteq> None then Some BadValue
      else None)"

definition checkSuitabilityAsDefault_wc :: "WriteConcern \<Rightarrow> error option" where
  "checkSuitabilityAsDefault_wc wc =
     (if wMode wc = [] \<and> wNumNodes wc < 1 then Some BadValue else None)"

text \<open>
  Modelled from the spec: \<open>DistCache\<close> is not among the sources. The spec describes it
  as a single-key cache; \<open>acquire\<close> serves the held value and looks it up through
  \<open>lookupFn\<close> when there is none, \<open>revalidate\<close> replaces the held value. The object
  is the held value and what \<open>lookupFn\<close> answers.
\<close>

record ReadWriteConcernDefaults =
  defaults :: "RWConcernDefault option"
  lookupFn :: "RWConcernDefault option"

definition acquire :: "ReadWriteConcernDefaults \<Rightarrow> RWConcernDefault option \<times> ReadWriteConcernDefaults" where
  "acquire this =
     (case defaults this of
        Some v \<Rightarrow> (Some v, this)
      | None \<Rightarrow> (lookupFn this, this\<lparr>defaults := lookupFn this\<rparr>))"

text \<open>Modelled from the spec: \<open>revalidate\<close> of the absent cache replaces the held value.\<close>

definition revalidate :: "RWConcernDefault \<Rightarrow> ReadWriteConcernDefaults \<Rightarrow> ReadWriteConcernDefaults" where
  "revalidate rwc this = this\<lparr>defaults := Some rwc\<rparr>"

text \<open>\<open>_setDefault\<close> and \<open>_getDefault\<close> of the source.\<close>

definition setDefault :: "RWConcernDefault \<Rightarrow> ReadWriteConcernDefaults \<Rightarrow> ReadWriteConcernDefaults" where
  "setDefault rwc this = revalidate rwc this"

definition getDefault_opt ::
  "ReadWriteConcernDefaults \<Rightarrow> RWConcernDefault option \<times> ReadWriteConcernDefaults" where
  "getDefault_opt this = acquire this"

text \<open>
  \<open>setConcerns\<close>, with the two clock readings as arguments. It returns the stored
  default and the object, or the error raised; a failed \<open>invariant\<close> is the error
  \<open>InvariantFailure\<close>.
\<close>

definition setConcerns ::
  "ReadWriteConcernDefaults \<Rightarrow> nat \<Rightarrow> nat \<Rightarrow> ReadConcern option \<Rightarrow> WriteConcern option
     \<Rightarrow> error + (RWConcernDefault \<times> ReadWriteConcernDefaults)" where
  "setConcerns this now epoch rc wc =
     (if rc = None \<and> wc = None then Inl InvariantFailure
      else case (case rc of None \<Rightarrow> None | Some r \<Rightarrow> checkSuitabilityAsDefault_rc r) of
        Some e \<Rightarrow> Inl e
      | None \<Rightarrow>
         (case (case wc of None \<Rightarrow> None | Some w \<Rightarrow> checkSuitabilityAsDefault_wc w) of
            Some e \<Rightarrow> Inl e
          | None \<Rightarrow>
             (let rwc = \<lparr>getDefaultReadConcern = rc, getDefaultWriteConcern = wc,
                         getEpoch = Some epoch, getSetTime = Some now,
                         getLocalSetTime = Some now\<rparr>
              in case getDefault_opt this of (current, this1) \<Rightarrow>
                (let rwc1 = (case current of
                               Some cur \<Rightarrow> if rc = None
                                 then rwc\<lparr>getDefaultReadConcern := getDefaultReadConcern cur\<rparr>
                                 else rwc
                             | None \<Rightarrow> rwc);
                     rwc2 = (case current of
                               Some cur \<Rightarrow> if wc = None
                                 then rwc1\<lparr>getDefaultWriteConcern := getDefaultWriteConcern cur\<rparr>
                                 else rwc1
                             | None \<Rightarrow> rwc1);
                     this2 = setDefault rwc2 this1
                 in case getDefault_opt this2 of
                      (Some stored, this3) \<Rightarrow> Inr (stored, this3)
                    | (None, this3) \<Rightarrow> Inl InvariantFailure))))"

section \<open>Notions used in the statements\<close>

text \<open>
  The refresh of a task's namespace succeeds; the task is stale on a catalog (its
  collection does not exist, or exists with another uuid); and the answer of
  \<open>submitRangeDeletionTask\<close> for a task right after the refresh of its namespace.
\<close>

definition refreshSucceeds :: "RefreshSource \<Rightarrow> 'k RangeDeletionTask \<Rightarrow> bool" where
  "refreshSucceeds src t = (src (getNss t) = None)"

definition staleTask :: "(NamespaceString \<Rightarrow> UUID option) \<Rightarrow> 'k RangeDeletionTask \<Rightarrow> bool" where
  "staleTask cat t = (cat (getNss t) \<noteq> Some (getCollectionUuid t))"

definition taskValid ::
  "RefreshSource \<Rightarrow> (NamespaceString \<Rightarrow> UUID option) \<Rightarrow> 'k RangeDeletionTask \<Rightarrow> bool" where
  "taskValid src cat t = (cat (getNss t) = Some (getCollectionUuid t) \<and> src (getNss t) = None)"

definition cleanUpCall :: "'k RangeDeletionTask \<Rightarrow> NamespaceString \<times> 'k ChunkRange \<times> CleanWhen" where
  "cleanUpCall t =
     (getNss t, getRange t, if getWhenToClean t = kNow then CSR_kNow else CSR_kDelayed)"

section \<open>Concrete scenarios\<close>

text \<open>
  Small stores over integer keys, used to evaluate the definitions: migration \<open>1\<close>
  moves the range \<open>[10, 20)\<close> of the collection \<open>db.coll\<close> with uuid \<open>7\<close>.
\<close>

definition mkTask ::
  "UUID \<Rightarrow> NamespaceString \<Rightarrow> UUID \<Rightarrow> int \<Rightarrow> int \<Rightarrow> bool option \<Rightarrow> int RangeDeletionTask" where
  "mkTask i nss u lo hi p =
     \<lparr>getId = i, getNss = nss, getCollectionUuid = u,
      getRange = \<lparr>getMin = lo, getMax = hi\<rparr>, getPending = p, getWhenToClean = kDelayed\<rparr>"

definition mkNode ::
  "int RangeDeletionTask list \<Rightarrow> (NamespaceString \<Rightarrow> UUID option) \<Rightarrow> int node" where
  "mkNode s cat =
     \<lparr>rangeDeletions = s, migrationCoordinators = [], collections = cat,
      filteringMetadataKnown = (\<lambda>_. False), cleanUpRangeCalls = []\<rparr>"

definition catalog1 :: "NamespaceString \<Rightarrow> UUID option" where
  "catalog1 = (\<lambda>nss. if nss = ''db.coll'' then Some 7 else None)"

definition mkCluster :: "int node \<Rightarrow> int node \<Rightarrow> int cluster" where
  "mkCluster donor recipient =
     \<lparr>localNode = donor,
      shardRegistry = (\<lambda>s. if s = ''shard1'' then Some recipient else None),
      responseStatus = (\<lambda>_. None)\<rparr>"

definition coordinator1 :: "int MigrationCoordinator" where
  "coordinator1 =
     \<lparr>migrationInfo =
        \<lparr>getId_doc = 1, getNss_doc = ''db.coll'', getCollectionUuid_doc = 7,
         getDonorShardId = ''shard0'', getRecipientShardId = ''shard1'',
         getRange_doc = \<lparr>getMin = 10, getMax = 20\<rparr>\<rparr>\<rparr>"

text \<open>
  A defaults object that holds a current default: read concern \<open>majority\<close>, write
  concern \<open>w: 1\<close>.
\<close>

definition currentDefault1 :: RWConcernDefault where
  "currentDefault1 =
     \<lparr>getDefaultReadConcern =
        Some \<lparr>getLevel = kMajorityReadConcern, getArgsOpTime = None,
              getArgsAfterClusterTime = None, getArgsAtClusterTime = None\<rparr>,
      getDefaultWriteConcern = Some \<lparr>wMode = [], wNumNodes = 1\<rparr>,
      getEpoch = Some 1, getSetTime = Some 1, getLocalSetTime = Some 1\<rparr>"

definition defaults1 :: ReadWriteConcernDefaults where
  "defaults1 = \<lparr>defaults = Some currentDefault1, lookupFn = None\<rparr>"

section \<open>Properties of the stores\<close>

lemma update_first_set:
  assumes "distinct (map f s)" "d \<in> set s" "f d = m"
  shows "set (update_first (\<lambda>t. f t = m) u s) = insert (u d) (set s - {d})"
  using assms
proof (induction s)
  case Nil
  then show ?case by simp
next
  case (Cons x xs)
  show ?case
  proof (cases "f x = m")
    case True
    have "x = d"
    proof (rule ccontr)
      assume "x \<noteq> d"
      then have "d \<in> set xs" using Cons.prems(2) by simp
      then have "f d \<in> f ` set xs" by simp
      then show False using Cons.prems(1,3) True by simp
    qed
    moreover have "d \<notin> set xs" using Cons.prems(1) \<open>x = d\<close> by auto
    ultimately show ?thesis using True by auto
  next
    case False
    then have "x \<noteq> d" using Cons.prems(3) by auto
    then have "d \<in> set xs" using Cons.prems(2) by simp
    moreover have "distinct (map f xs)" using Cons.prems(1) by simp
    ultimately have "set (update_first (\<lambda>t. f t = m) u xs) = insert (u d) (set xs - {d})"
      using Cons.IH Cons.prems(3) by simp
    then show ?thesis using False \<open>x \<noteq> d\<close> by auto
  qed
qed

lemma delete_first_set:
  assumes "distinct (map f s)" "d \<in> set s" "f d = m"
  shows "set (delete_first (\<lambda>t. f t = m) s) = set s - {d}"
  using assms
proof (induction s)
  case Nil
  then show ?case by simp
next
  case (Cons x xs)
  show ?case
  proof (cases "f x = m")
    case True
    have "x = d"
    proof (rule ccontr)
      assume "x \<noteq> d"
      then have "d \<in> set xs" using Cons.prems(2) by simp
      then have "f d \<in> f ` set xs" by simp
      then show False using Cons.prems(1,3) True by simp
    qed
    moreover have "d \<notin> set xs" using Cons.prems(1) \<open>x = d\<close> by auto
    ultimately show ?thesis using True by auto
  next
    case False
    then have "x \<noteq> d" using Cons.prems(3) by auto
    then have "d \<in> set xs" using Cons.prems(2) by simp
    moreover have "distinct (map f xs)" using Cons.prems(1) by simp
    ultimately have "set (delete_first (\<lambda>t. f t = m) xs) = set xs - {d}"
      using Cons.IH Cons.prems(3) by simp
    then show ?thesis using False \<open>x \<noteq> d\<close> by auto
  qed
qed

lemma distinct_same_id:
  assumes "distinct (map f s)" "d \<in> set s" "t \<in> set s" "f t = f d"
  shows "t = d"
  using assms by (meson distinct_map inj_onD)

lemma update_first_ids: "(\<And>x. f (u x) = f x) \<Longrightarrow> map f (update_first q u s) = map f s"
  by (induction s) auto

lemma delete_first_subset: "set (delete_first q s) \<subseteq> set s"
  by (induction s) auto

lemma delete_first_distinct: "distinct (map f s) \<Longrightarrow> distinct (map f (delete_first q s))"
proof (induction s)
  case Nil
  then show ?case by simp
next
  case (Cons x xs)
  show ?case using Cons delete_first_subset[of q xs] by auto
qed

lemma store_remove_distinct: "distinct (map f s) \<Longrightarrow> distinct (map f (store_remove q s))"
  by (simp add: store_remove_def distinct_map_filter)

lemma store_add_distinct:
  "distinct (map f s) \<Longrightarrow> store_add f d s = Inr s' \<Longrightarrow> distinct (map f s')"
proof -
  assume d: "distinct (map f s)" and a: "store_add f d s = Inr s'"
  from a have new: "\<forall>d' \<in> set s. f d' \<noteq> f d" and s': "s' = s @ [d]"
    by (auto simp: store_add_def split: if_splits)
  from new have "f d \<notin> f ` set s" by auto
  then show "distinct (map f s')" using d s' by simp
qed


section \<open>Conflict detection\<close>

lemma count_pos_iff: "store_count q s > 0 \<longleftrightarrow> (\<exists>d \<in> set s. q d)"
  by (simp add: store_count_def filter_empty_conv)

lemma checkForConflictingDeletions_iff:
  "checkForConflictingDeletions opCtx rng uuid \<longleftrightarrow>
     (\<exists>t \<in> set (rangeDeletions opCtx). overlappingRangeQuery rng uuid t)"
  by (simp add: checkForConflictingDeletions_def count_pos_iff)

text \<open>
  Claim C3. When \<open>ta\<close>, with range \<open>a\<close>, is the stored task of the collection
  \<open>uuid\<close>, the overlap check of a range \<open>b\<close> on that collection reports an overlap
  exactly when \<open>a.min < b.max\<close> and \<open>a.max > b.min\<close>. In particular it reports none
  for ranges that are exactly adjacent (\<open>a.max = b.min\<close>) and none for disjoint ranges.
\<close>

theorem overlap_pairwise:
  fixes a b :: "('k::linorder) ChunkRange"
  assumes "filter (\<lambda>t. getCollectionUuid t = uuid) (rangeDeletions opCtx) = [ta]"
      and "getRange ta = a"
  shows "(checkForConflictingDeletions opCtx b uuid
            \<longleftrightarrow> getMin a < getMax b \<and> getMax a > getMin b)
       \<and> (getMax a = getMin b \<longrightarrow> \<not> checkForConflictingDeletions opCtx b uuid)
       \<and> (getMax a \<le> getMin b \<or> getMax b \<le> getMin a
            \<longrightarrow> \<not> checkForConflictingDeletions opCtx b uuid)"
proof -
  have mem: "\<And>t. t \<in> set (rangeDeletions opCtx) \<and> getCollectionUuid t = uuid \<longleftrightarrow> t = ta"
  proof -
    fix t
    have "t \<in> set (filter (\<lambda>t. getCollectionUuid t = uuid) (rangeDeletions opCtx)) \<longleftrightarrow> t = ta"
      by (simp only: assms(1)) simp
    then show "t \<in> set (rangeDeletions opCtx) \<and> getCollectionUuid t = uuid \<longleftrightarrow> t = ta"
      by simp
  qed
  have iff: "checkForConflictingDeletions opCtx b uuid
            \<longleftrightarrow> getMin a < getMax b \<and> getMax a > getMin b"
  proof -
    have "checkForConflictingDeletions opCtx b uuid \<longleftrightarrow>
          (\<exists>t. (t \<in> set (rangeDeletions opCtx) \<and> getCollectionUuid t = uuid)
               \<and> getMin (getRange t) < getMax b \<and> getMax (getRange t) > getMin b)"
      unfolding checkForConflictingDeletions_iff overlappingRangeQuery_def by auto
    also have "\<dots> \<longleftrightarrow> getMin (getRange ta) < getMax b \<and> getMax (getRange ta) > getMin b"
      by (simp only: mem) simp
    finally show ?thesis by (simp add: assms(2))
  qed
  show ?thesis using iff by auto
qed

text \<open>
  The range \<open>[10, 20)\<close> is stored for the collection \<open>7\<close>: \<open>[15, 25)\<close> overlaps it,
  the adjacent \<open>[20, 30)\<close> does not.
\<close>

theorem overlap_pairwise_witness:
  "filter (\<lambda>t. getCollectionUuid t = 7)
      (rangeDeletions (mkNode [mkTask 1 ''db.coll'' 7 10 20 None, mkTask 2 ''db.other'' 8 0 100 None] catalog1))
     = [mkTask 1 ''db.coll'' 7 10 20 None]
   \<and> checkForConflictingDeletions
        (mkNode [mkTask 1 ''db.coll'' 7 10 20 None, mkTask 2 ''db.other'' 8 0 100 None] catalog1)
        \<lparr>getMin = 15, getMax = 25\<rparr> 7
   \<and> \<not> checkForConflictingDeletions
        (mkNode [mkTask 1 ''db.coll'' 7 10 20 None, mkTask 2 ''db.other'' 8 0 100 None] catalog1)
        \<lparr>getMin = 20, getMax = 30\<rparr> 7"
proof -
  let ?n = "mkNode [mkTask 1 ''db.coll'' 7 10 20 None, mkTask 2 ''db.other'' 8 0 100 None] catalog1"
  have h: "filter (\<lambda>t. getCollectionUuid t = 7) (rangeDeletions ?n) = [mkTask 1 ''db.coll'' 7 10 20 None]"
    by (simp add: mkNode_def mkTask_def)
  have r: "getRange (mkTask 1 ''db.coll'' 7 10 20 None) = \<lparr>getMin = 10, getMax = 20\<rparr>"
    by (simp add: mkTask_def)
  show ?thesis
    using h overlap_pairwise [OF h r, of "\<lparr>getMin = 15, getMax = 25\<rparr>"]
      overlap_pairwise [OF h r, of "\<lparr>getMin = 20, getMax = 30\<rparr>"]
    by simp
qed

text \<open>
  Claim C4 as stated fails. The only stored task of the collection \<open>7\<close> is the
  candidate's own record (id \<open>1\<close>, range \<open>[10, 20)\<close>), and the check of that range
  returns true: the query names no task id, so nothing is excluded.
\<close>

theorem conflict_self_counterexample:
  "map getId (filter (\<lambda>t. getCollectionUuid t = 7)
      (rangeDeletions (mkNode [mkTask 1 ''db.coll'' 7 10 20 (Some True)] catalog1))) = [1]
   \<and> checkForConflictingDeletions (mkNode [mkTask 1 ''db.coll'' 7 10 20 (Some True)] catalog1)
        (getRange (mkTask 1 ''db.coll'' 7 10 20 (Some True))) 7 = True"
  by (simp add: checkForConflictingDeletions_def store_count_def overlappingRangeQuery_def
        mkNode_def mkTask_def)

text \<open>
  Claim C4, amended. \<open>checkForConflictingDeletions\<close> returns true exactly when some
  stored task of the same collection uuid has a range that intersects the queried range
  (\<open>storedMin < queryMax\<close> and \<open>storedMax > queryMin\<close>). No stored task is excluded:
  a stored task with a non-empty range conflicts with its own range.
\<close>

theorem conflict_any_stored_task:
  fixes rng :: "('k::linorder) ChunkRange"
  shows "(checkForConflictingDeletions opCtx rng uuid \<longleftrightarrow>
           (\<exists>t \<in> set (rangeDeletions opCtx).
              getCollectionUuid t = uuid
              \<and> getMin (getRange t) < getMax rng \<and> getMax (getRange t) > getMin rng))
       \<and> (\<forall>t \<in> set (rangeDeletions opCtx).
             getMin (getRange t) < getMax (getRange t)
             \<longrightarrow> checkForConflictingDeletions opCtx (getRange t) (getCollectionUuid t))"
  unfolding checkForConflictingDeletions_iff overlappingRangeQuery_def by auto

text \<open>The stored task of migration \<open>1\<close> conflicts with its own range.\<close>

theorem conflict_any_stored_task_witness:
  "mkTask 1 ''db.coll'' 7 10 20 (Some True)
     \<in> set (rangeDeletions (mkNode [mkTask 1 ''db.coll'' 7 10 20 (Some True)] catalog1))
   \<and> getMin (getRange (mkTask 1 ''db.coll'' 7 10 20 (Some True)))
       < getMax (getRange (mkTask 1 ''db.coll'' 7 10 20 (Some True)))
   \<and> checkForConflictingDeletions (mkNode [mkTask 1 ''db.coll'' 7 10 20 (Some True)] catalog1)
        \<lparr>getMin = 10, getMax = 20\<rparr> 7"
proof -
  let ?t = "mkTask 1 ''db.coll'' 7 10 20 (Some True)"
  let ?n = "mkNode [?t] catalog1"
  have m: "?t \<in> set (rangeDeletions ?n)" by (simp add: mkNode_def)
  have ne: "getMin (getRange ?t) < getMax (getRange ?t)" by (simp add: mkTask_def)
  have "checkForConflictingDeletions ?n (getRange ?t) (getCollectionUuid ?t)"
    using conflict_any_stored_task [of ?n "getRange ?t" 7] m ne by blast
  then show ?thesis using m ne by (simp add: mkTask_def)
qed


section \<open>Commit and abort\<close>

lemma getId_unsetPending: "getId (unsetPending x) = getId x"
  by (simp add: unsetPending_def)

text \<open>
  Claim C1. A migration \<open>M\<close> is started: the donor (the local node) holds a task
  \<open>d\<close> for \<open>M\<close>, the recipient, a registered shard that answers with success, holds a
  task \<open>r\<close> for \<open>M\<close>, and the ids of each store are distinct. Then
  \<open>commitMigrationOnDonorAndRecipient\<close> returns, the donor's task for \<open>M\<close> is \<open>d\<close>
  with its pending flag cleared, and the recipient's store holds no task for \<open>M\<close>.
  \<open>abortMigrationOnDonorAndRecipient\<close> instead returns, the donor's store holds no
  task for \<open>M\<close>, and the recipient's task for \<open>M\<close> is \<open>r\<close> with its pending flag
  cleared.
\<close>

theorem commit_abort_end_states:
  assumes reg: "shardRegistry opCtx (getRecipientShardId (migrationInfo coord)) = Some recipient"
      and ok: "responseStatus opCtx (getRecipientShardId (migrationInfo coord)) = None"
      and ud: "unique_ids getId (rangeDeletions (localNode opCtx))"
      and ur: "unique_ids getId (rangeDeletions recipient)"
      and d: "d \<in> set (rangeDeletions (localNode opCtx))" "getId d = getId_doc (migrationInfo coord)"
      and r: "r \<in> set (rangeDeletions recipient)" "getId r = getId_doc (migrationInfo coord)"
  shows "(\<exists>opCtx' recipient'.
            commitMigrationOnDonorAndRecipient coord opCtx = Inr opCtx'
          \<and> shardRegistry opCtx' (getRecipientShardId (migrationInfo coord)) = Some recipient'
          \<and> set (rangeDeletions (localNode opCtx'))
               = insert (unsetPending d) (set (rangeDeletions (localNode opCtx)) - {d})
          \<and> getPending (unsetPending d) = None
          \<and> (\<forall>t \<in> set (rangeDeletions (localNode opCtx')).
                getId t = getId_doc (migrationInfo coord) \<longrightarrow> t = unsetPending d)
          \<and> (\<forall>t \<in> set (rangeDeletions recipient'). getId t \<noteq> getId_doc (migrationInfo coord)))
       \<and> (\<exists>opCtx' recipient'.
            abortMigrationOnDonorAndRecipient coord opCtx = Inr opCtx'
          \<and> shardRegistry opCtx' (getRecipientShardId (migrationInfo coord)) = Some recipient'
          \<and> (\<forall>t \<in> set (rangeDeletions (localNode opCtx')). getId t \<noteq> getId_doc (migrationInfo coord))
          \<and> set (rangeDeletions recipient')
               = insert (unsetPending r) (set (rangeDeletions recipient) - {r})
          \<and> getPending (unsetPending r) = None
          \<and> (\<forall>t \<in> set (rangeDeletions recipient').
                getId t = getId_doc (migrationInfo coord) \<longrightarrow> t = unsetPending r))"
proof -
  let ?M = "getId_doc (migrationInfo coord)"
  let ?R = "getRecipientShardId (migrationInfo coord)"
  have dd: "distinct (map getId (rangeDeletions (localNode opCtx)))"
    using ud by (simp add: unique_ids_def)
  have dr: "distinct (map getId (rangeDeletions recipient))"
    using ur by (simp add: unique_ids_def)
  have only_d: "t = d" if "t \<in> set (rangeDeletions (localNode opCtx))" "getId t = ?M" for t
    using distinct_same_id [OF dd d(1) that(1)] that(2) d(2) by simp
  have only_r: "t = r" if "t \<in> set (rangeDeletions recipient)" "getId t = ?M" for t
    using distinct_same_id [OF dr r(1) that(1)] that(2) r(2) by simp
  have upd_d: "set (update_first (\<lambda>t. getId t = ?M) unsetPending (rangeDeletions (localNode opCtx)))
                 = insert (unsetPending d) (set (rangeDeletions (localNode opCtx)) - {d})"
    by (rule update_first_set [OF dd d])
  have upd_r: "set (update_first (\<lambda>t. getId t = ?M) unsetPending (rangeDeletions recipient))
                 = insert (unsetPending r) (set (rangeDeletions recipient) - {r})"
    by (rule update_first_set [OF dr r])
  have del_r: "set (delete_first (\<lambda>t. getId t = ?M) (rangeDeletions recipient))
                 = set (rangeDeletions recipient) - {r}"
    by (rule delete_first_set [OF dr r])
  have pend: "getPending (unsetPending x) = None" for x :: "'a RangeDeletionTask"
    by (simp add: unsetPending_def)
  have commit: "\<exists>opCtx' recipient'.
            commitMigrationOnDonorAndRecipient coord opCtx = Inr opCtx'
          \<and> shardRegistry opCtx' ?R = Some recipient'
          \<and> set (rangeDeletions (localNode opCtx'))
               = insert (unsetPending d) (set (rangeDeletions (localNode opCtx)) - {d})
          \<and> getPending (unsetPending d) = None
          \<and> (\<forall>t \<in> set (rangeDeletions (localNode opCtx')). getId t = ?M \<longrightarrow> t = unsetPending d)
          \<and> (\<forall>t \<in> set (rangeDeletions recipient'). getId t \<noteq> ?M)"
  proof -
    let ?rec' = "recipient\<lparr>rangeDeletions := delete_first (\<lambda>t. getId t = ?M) (rangeDeletions recipient)\<rparr>"
    let ?c1 = "opCtx\<lparr>shardRegistry := (shardRegistry opCtx)(?R := Some ?rec')\<rparr>"
    let ?c2 = "?c1\<lparr>localNode := markAsReadyRangeDeletionTaskLocally (localNode ?c1) ?M\<rparr>"
    have e: "commitMigrationOnDonorAndRecipient coord opCtx = Inr ?c2"
      by (simp add: commitMigrationOnDonorAndRecipient_def deleteRangeDeletionTaskOnRecipient_def
            sendToRecipient_def reg ok)
    have s1: "shardRegistry ?c2 ?R = Some ?rec'" by simp
    have s2: "set (rangeDeletions (localNode ?c2))
               = insert (unsetPending d) (set (rangeDeletions (localNode opCtx)) - {d})"
      by (simp add: markAsReadyRangeDeletionTaskLocally_def store_update_def upd_d)
    have s3: "\<forall>t \<in> set (rangeDeletions (localNode ?c2)). getId t = ?M \<longrightarrow> t = unsetPending d"
      unfolding s2 using only_d by auto
    have s4: "\<forall>t \<in> set (rangeDeletions ?rec'). getId t \<noteq> ?M"
      using del_r only_r by auto
    show ?thesis using e s1 s2 s3 s4 pend by blast
  qed
  have abort: "\<exists>opCtx' recipient'.
            abortMigrationOnDonorAndRecipient coord opCtx = Inr opCtx'
          \<and> shardRegistry opCtx' ?R = Some recipient'
          \<and> (\<forall>t \<in> set (rangeDeletions (localNode opCtx')). getId t \<noteq> ?M)
          \<and> set (rangeDeletions recipient')
               = insert (unsetPending r) (set (rangeDeletions recipient) - {r})
          \<and> getPending (unsetPending r) = None
          \<and> (\<forall>t \<in> set (rangeDeletions recipient'). getId t = ?M \<longrightarrow> t = unsetPending r)"
  proof -
    let ?rec' = "recipient\<lparr>rangeDeletions := update_first (\<lambda>t. getId t = ?M) unsetPending (rangeDeletions recipient)\<rparr>"
    let ?c1 = "opCtx\<lparr>localNode := deleteRangeDeletionTaskLocally (localNode opCtx) ?M\<rparr>"
    let ?c2 = "?c1\<lparr>shardRegistry := (shardRegistry ?c1)(?R := Some ?rec')\<rparr>"
    have e: "abortMigrationOnDonorAndRecipient coord opCtx = Inr ?c2"
      by (simp add: abortMigrationOnDonorAndRecipient_def markAsReadyRangeDeletionTaskOnRecipient_def
            sendToRecipient_def reg ok)
    have s1: "shardRegistry ?c2 ?R = Some ?rec'" by simp
    have s2: "\<forall>t \<in> set (rangeDeletions (localNode ?c2)). getId t \<noteq> ?M"
      by (simp add: deleteRangeDeletionTaskLocally_def store_remove_def)
    have s3: "set (rangeDeletions ?rec')
               = insert (unsetPending r) (set (rangeDeletions recipient) - {r})"
      by (simp add: upd_r)
    have s4: "\<forall>t \<in> set (rangeDeletions ?rec'). getId t = ?M \<longrightarrow> t = unsetPending r"
      unfolding s3 using only_r by auto
    show ?thesis using e s1 s2 s3 s4 pend by blast
  qed
  show ?thesis using commit abort by blast
qed


text \<open>
  Migration \<open>1\<close> with a pending task on the donor and on the recipient \<open>shard1\<close>:
  the two end states, computed.
\<close>

theorem commit_abort_end_states_witness:
  "(case commitMigrationOnDonorAndRecipient coordinator1
          (mkCluster (mkNode [mkTask 1 ''db.coll'' 7 10 20 (Some True)] catalog1)
                     (mkNode [mkTask 1 ''db.coll'' 7 10 20 (Some True)] catalog1)) of
      Inl e \<Rightarrow> False
    | Inr c \<Rightarrow> rangeDeletions (localNode c) = [mkTask 1 ''db.coll'' 7 10 20 None]
             \<and> map_option rangeDeletions (shardRegistry c ''shard1'') = Some [])
   \<and> (case abortMigrationOnDonorAndRecipient coordinator1
          (mkCluster (mkNode [mkTask 1 ''db.coll'' 7 10 20 (Some True)] catalog1)
                     (mkNode [mkTask 1 ''db.coll'' 7 10 20 (Some True)] catalog1)) of
      Inl e \<Rightarrow> False
    | Inr c \<Rightarrow> rangeDeletions (localNode c) = []
             \<and> map_option rangeDeletions (shardRegistry c ''shard1'')
                 = Some [mkTask 1 ''db.coll'' 7 10 20 None])"
proof -
  let ?t = "mkTask 1 ''db.coll'' 7 10 20 (Some True)"
  let ?n = "mkNode [?t] catalog1"
  let ?c = "mkCluster ?n ?n"
  have h1: "shardRegistry ?c (getRecipientShardId (migrationInfo coordinator1)) = Some ?n"
    by (simp add: mkCluster_def coordinator1_def)
  have h2: "responseStatus ?c (getRecipientShardId (migrationInfo coordinator1)) = None"
    by (simp add: mkCluster_def)
  have h3: "unique_ids getId (rangeDeletions (localNode ?c))"
    by (simp add: unique_ids_def mkCluster_def mkNode_def)
  have h4: "unique_ids getId (rangeDeletions ?n)"
    by (simp add: unique_ids_def mkNode_def)
  have h5: "?t \<in> set (rangeDeletions (localNode ?c))"
    by (simp add: mkCluster_def mkNode_def)
  have h6: "getId ?t = getId_doc (migrationInfo coordinator1)"
    by (simp add: mkTask_def coordinator1_def)
  have h7: "?t \<in> set (rangeDeletions ?n)"
    by (simp add: mkNode_def)
  show ?thesis
    using commit_abort_end_states [OF h1 h2 h3 h4 h5 h6 h7 h6]
    by (simp add: commitMigrationOnDonorAndRecipient_def abortMigrationOnDonorAndRecipient_def
          deleteRangeDeletionTaskOnRecipient_def markAsReadyRangeDeletionTaskOnRecipient_def
          sendToRecipient_def markAsReadyRangeDeletionTaskLocally_def
          deleteRangeDeletionTaskLocally_def store_update_def store_remove_def
          unsetPending_def mkCluster_def mkNode_def mkTask_def coordinator1_def)
qed



section \<open>The enumeration of submitPendingDeletions\<close>

lemma visitor_step:
  "submitPendingDeletions_visitor src t (n, acc) =
     (case src (getNss t) of
        Some e \<Rightarrow> ((n, acc), Inl e)
      | None \<Rightarrow>
          ((if taskValid src (collections n) t
            then n\<lparr>filteringMetadataKnown := (filteringMetadataKnown n)(getNss t := True),
                   cleanUpRangeCalls := cleanUpRangeCalls n @ [cleanUpCall t]\<rparr>
            else n\<lparr>filteringMetadataKnown := (filteringMetadataKnown n)(getNss t := True)\<rparr>,
            if taskValid src (collections n) t then acc else acc @ [t]),
           Inr True))"
  by (auto simp: submitPendingDeletions_visitor_def forceShardFilteringMetadataRefresh_def
        submitRangeDeletionTask_def taskValid_def cleanUpCall_def Let_def
        split: sum.splits option.splits)

lemma enumerate_store:
  "rangeDeletions (fst (fst (forEach_docs (submitPendingDeletions_visitor src) ds (n, acc))))
     = rangeDeletions n"
proof (induction ds arbitrary: n acc)
  case Nil
  then show ?case by simp
next
  case (Cons t ds)
  show ?case
    by (cases "src (getNss t)") (simp_all add: visitor_step Cons.IH)
qed

lemma enumerate_collections:
  "collections (fst (fst (forEach_docs (submitPendingDeletions_visitor src) ds (n, acc))))
     = collections n"
proof (induction ds arbitrary: n acc)
  case Nil
  then show ?case by simp
next
  case (Cons t ds)
  show ?case
    by (cases "src (getNss t)") (simp_all add: visitor_step Cons.IH)
qed

lemma enumerate_ok:
  assumes "\<forall>t \<in> set ds. refreshSucceeds src t"
  shows "snd (forEach_docs (submitPendingDeletions_visitor src) ds (n, acc)) = None
       \<and> snd (fst (forEach_docs (submitPendingDeletions_visitor src) ds (n, acc)))
           = acc @ filter (\<lambda>t. \<not> taskValid src (collections n) t) ds"
  using assms
proof (induction ds arbitrary: n acc)
  case Nil
  then show ?case by simp
next
  case (Cons t ds)
  from Cons.prems have k: "src (getNss t) = None"
    by (simp add: refreshSucceeds_def)
  from Cons.prems have rest: "\<forall>t \<in> set ds. refreshSucceeds src t" by simp
  show ?case
    using Cons.IH [OF rest] by (simp add: visitor_step k)
qed

lemma enumerate_raises:
  assumes "\<not> (\<forall>t \<in> set ds. refreshSucceeds src t)"
  shows "snd (forEach_docs (submitPendingDeletions_visitor src) ds (n, acc)) \<noteq> None"
  using assms
proof (induction ds arbitrary: n acc)
  case Nil
  then show ?case by simp
next
  case (Cons t ds)
  show ?case
  proof (cases "src (getNss t)")
    case (Some e)
    then show ?thesis by (simp add: visitor_step)
  next
    case None
    then have "refreshSucceeds src t" by (simp add: refreshSucceeds_def)
    with Cons.prems have "\<not> (\<forall>t \<in> set ds. refreshSucceeds src t)" by simp
    from Cons.IH [OF this] show ?thesis by (simp add: visitor_step None)
  qed
qed

lemma enumerate_cleanups:
  "\<exists>new. cleanUpRangeCalls (fst (fst (forEach_docs (submitPendingDeletions_visitor src) ds (n, acc))))
            = cleanUpRangeCalls n @ new
        \<and> set new \<subseteq> cleanUpCall ` set ds"
proof (induction ds arbitrary: n acc)
  case Nil
  then show ?case by simp
next
  case (Cons t ds)
  show ?case
  proof (cases "src (getNss t)")
    case (Some e)
    then show ?thesis by (simp add: visitor_step)
  next
    case None
    let ?n1 = "if taskValid src (collections n) t
            then n\<lparr>filteringMetadataKnown := (filteringMetadataKnown n)(getNss t := True),
                   cleanUpRangeCalls := cleanUpRangeCalls n @ [cleanUpCall t]\<rparr>
            else n\<lparr>filteringMetadataKnown := (filteringMetadataKnown n)(getNss t := True)\<rparr>"
    let ?inv1 = "if taskValid src (collections n) t then acc else acc @ [t]"
    from Cons.IH [of ?n1 ?inv1] obtain new where
      new: "cleanUpRangeCalls (fst (fst (forEach_docs (submitPendingDeletions_visitor src) ds (?n1, ?inv1))))
            = cleanUpRangeCalls ?n1 @ new" "set new \<subseteq> cleanUpCall ` set ds"
      by blast
    have step: "forEach_docs (submitPendingDeletions_visitor src) (t # ds) (n, acc)
                = forEach_docs (submitPendingDeletions_visitor src) ds (?n1, ?inv1)"
      by (simp add: visitor_step None)
    show ?thesis
    proof (cases "taskValid src (collections n) t")
      case True
      with new have "cleanUpRangeCalls (fst (fst (forEach_docs (submitPendingDeletions_visitor src) (t # ds) (n, acc))))
            = cleanUpRangeCalls n @ (cleanUpCall t # new)"
        unfolding step by simp
      moreover have "set (cleanUpCall t # new) \<subseteq> cleanUpCall ` set (t # ds)"
        using new(2) by auto
      ultimately show ?thesis by blast
    next
      case False
      with new have "cleanUpRangeCalls (fst (fst (forEach_docs (submitPendingDeletions_visitor src) (t # ds) (n, acc))))
            = cleanUpRangeCalls n @ new"
        unfolding step by simp
      moreover have "set new \<subseteq> cleanUpCall ` set (t # ds)"
        using new(2) by auto
      ultimately show ?thesis by blast
    qed
  qed
qed

lemma removeInvalidRanges_store:
  "rangeDeletions (removeInvalidRanges acc n)
     = filter (\<lambda>d. \<forall>r \<in> set acc. \<not> Query_toBSON r d) (rangeDeletions n)"
proof (induction acc arbitrary: n)
  case Nil
  then show ?case by simp
next
  case (Cons r rs)
  show ?case by (simp add: Cons.IH store_remove_def)
qed

lemma removeInvalidRanges_collections:
  "collections (removeInvalidRanges acc n) = collections n"
  by (induction acc arbitrary: n) simp_all


lemma submitPendingDeletions_unfold:
  "submitPendingDeletions src n =
     (case snd (forEach_docs (submitPendingDeletions_visitor src)
                  (filter pendingAbsentQuery (rangeDeletions n)) (n, [])) of
        Some e \<Rightarrow>
          (fst (fst (forEach_docs (submitPendingDeletions_visitor src)
                       (filter pendingAbsentQuery (rangeDeletions n)) (n, []))), Some e)
      | None \<Rightarrow>
          (removeInvalidRanges
             (snd (fst (forEach_docs (submitPendingDeletions_visitor src)
                          (filter pendingAbsentQuery (rangeDeletions n)) (n, []))))
             (fst (fst (forEach_docs (submitPendingDeletions_visitor src)
                          (filter pendingAbsentQuery (rangeDeletions n)) (n, [])))), None))"
  by (auto simp: submitPendingDeletions_def submitPendingDeletions_enumerate_def
        store_forEach_def split: prod.splits option.splits)

lemma submitPendingDeletions_completes:
  assumes "\<forall>t \<in> set (rangeDeletions n). getPending t = None \<longrightarrow> refreshSucceeds src t"
  shows "snd (submitPendingDeletions src n) = None"
    and "rangeDeletions (fst (submitPendingDeletions src n))
           = filter (\<lambda>d. \<forall>r \<in> set (rangeDeletions n).
                       getPending r = None \<and> \<not> taskValid src (collections n) r
                       \<longrightarrow> \<not> Query_toBSON r d)
               (rangeDeletions n)"
proof -
  let ?ds = "filter pendingAbsentQuery (rangeDeletions n)"
  let ?res = "forEach_docs (submitPendingDeletions_visitor src) ?ds (n, [])"
  have all: "\<forall>t \<in> set ?ds. refreshSucceeds src t"
    using assms by (simp add: pendingAbsentQuery_def)
  from enumerate_ok [OF all, of n "[]"]
  have ok: "snd ?res = None"
    and accs: "snd (fst ?res) = filter (\<lambda>t. \<not> taskValid src (collections n) t) ?ds"
    by simp_all
  have unf: "submitPendingDeletions src n = (removeInvalidRanges (snd (fst ?res)) (fst (fst ?res)), None)"
    by (simp add: submitPendingDeletions_unfold ok)
  show "snd (submitPendingDeletions src n) = None" by (simp add: unf)
  have "rangeDeletions (fst (submitPendingDeletions src n))
          = filter (\<lambda>d. \<forall>r \<in> set (snd (fst ?res)). \<not> Query_toBSON r d) (rangeDeletions n)"
    by (simp add: unf removeInvalidRanges_store enumerate_store)
  also have "\<dots> = filter (\<lambda>d. \<forall>r \<in> set (rangeDeletions n).
                       getPending r = None \<and> \<not> taskValid src (collections n) r
                       \<longrightarrow> \<not> Query_toBSON r d) (rangeDeletions n)"
    unfolding accs by (rule filter_cong) (auto simp: pendingAbsentQuery_def)
  finally show "rangeDeletions (fst (submitPendingDeletions src n))
           = filter (\<lambda>d. \<forall>r \<in> set (rangeDeletions n).
                       getPending r = None \<and> \<not> taskValid src (collections n) r
                       \<longrightarrow> \<not> Query_toBSON r d)
               (rangeDeletions n)" .
qed

lemma submitPendingDeletions_raises:
  assumes "\<not> (\<forall>t \<in> set (rangeDeletions n). getPending t = None \<longrightarrow> refreshSucceeds src t)"
  shows "snd (submitPendingDeletions src n) \<noteq> None"
    and "rangeDeletions (fst (submitPendingDeletions src n)) = rangeDeletions n"
proof -
  let ?ds = "filter pendingAbsentQuery (rangeDeletions n)"
  let ?res = "forEach_docs (submitPendingDeletions_visitor src) ?ds (n, [])"
  have nall: "\<not> (\<forall>t \<in> set ?ds. refreshSucceeds src t)"
    using assms by (auto simp: pendingAbsentQuery_def)
  from enumerate_raises [OF nall, of n "[]"] obtain e where e: "snd ?res = Some e" by auto
  have unf: "submitPendingDeletions src n = (fst (fst ?res), Some e)"
    by (simp add: submitPendingDeletions_unfold e)
  show "snd (submitPendingDeletions src n) \<noteq> None" by (simp add: unf)
  show "rangeDeletions (fst (submitPendingDeletions src n)) = rangeDeletions n"
    by (simp add: unf enumerate_store)
qed

lemma submitPendingDeletions_collections:
  "collections (fst (submitPendingDeletions src n)) = collections n"
  by (simp add: submitPendingDeletions_unfold enumerate_collections
        removeInvalidRanges_collections split: option.splits)



lemma forEach_docs_cong:
  "(\<And>d st. d \<in> set ds \<Longrightarrow> v d st = v' d st) \<Longrightarrow> forEach_docs v ds st = forEach_docs v' ds st"
proof (induction ds arbitrary: st)
  case Nil
  then show ?case by simp
next
  case (Cons d ds)
  have "v d st = v' d st" using Cons.prems by simp
  moreover have "forEach_docs v ds st' = forEach_docs v' ds st'" for st'
    using Cons.IH Cons.prems by simp
  ultimately show ?case by (simp split: prod.splits sum.splits)
qed

lemma removeInvalidRanges_cleanups:
  "cleanUpRangeCalls (removeInvalidRanges acc n) = cleanUpRangeCalls n"
  by (induction acc arbitrary: n) simp_all

lemma submitPendingDeletions_cleanups:
  "\<exists>new. cleanUpRangeCalls (fst (submitPendingDeletions src n)) = cleanUpRangeCalls n @ new
        \<and> set new \<subseteq> cleanUpCall ` set (filter pendingAbsentQuery (rangeDeletions n))"
  using enumerate_cleanups [of src "filter pendingAbsentQuery (rangeDeletions n)" n "[]"]
  by (simp add: submitPendingDeletions_unfold removeInvalidRanges_cleanups split: option.splits)



section \<open>The pending gate\<close>

text \<open>
  Claim C2. For every store content, a task whose \<open>pending\<close> field is set is not among
  the documents the enumeration of \<open>submitPendingDeletions\<close> visits: the enumeration
  runs over the documents that match the query "pending is absent". The visitor, and with
  it \<open>submitRangeDeletionTask\<close>, is therefore never applied to such a task: any visitor
  that agrees with the one of \<open>submitPendingDeletions\<close> on the tasks without
  \<open>pending\<close> gives the same enumeration. Every range that \<open>submitPendingDeletions\<close>
  hands to \<open>cleanUpRange\<close> is the range of a stored task without \<open>pending\<close>.
\<close>

theorem pending_gate:
  "(\<forall>t. getPending t \<noteq> None \<longrightarrow> t \<notin> set (filter pendingAbsentQuery (rangeDeletions opCtx)))
   \<and> submitPendingDeletions_enumerate src opCtx
       = forEach_docs (submitPendingDeletions_visitor src)
           (filter pendingAbsentQuery (rangeDeletions opCtx)) (opCtx, [])
   \<and> (\<forall>v. (\<forall>t st. getPending t = None \<longrightarrow> v t st = submitPendingDeletions_visitor src t st)
          \<longrightarrow> store_forEach pendingAbsentQuery v (rangeDeletions opCtx) (opCtx, [])
              = submitPendingDeletions_enumerate src opCtx)
   \<and> (\<exists>new. cleanUpRangeCalls (fst (submitPendingDeletions src opCtx))
               = cleanUpRangeCalls opCtx @ new
           \<and> (\<forall>c \<in> set new. \<exists>t \<in> set (rangeDeletions opCtx).
                  getPending t = None \<and> c = cleanUpCall t))"
proof -
  have p1: "\<forall>t. getPending t \<noteq> None \<longrightarrow> t \<notin> set (filter pendingAbsentQuery (rangeDeletions opCtx))"
    by (simp add: pendingAbsentQuery_def)
  have p2: "submitPendingDeletions_enumerate src opCtx
       = forEach_docs (submitPendingDeletions_visitor src)
           (filter pendingAbsentQuery (rangeDeletions opCtx)) (opCtx, [])"
    by (simp add: submitPendingDeletions_enumerate_def store_forEach_def)
  have p3: "\<forall>v. (\<forall>t st. getPending t = None \<longrightarrow> v t st = submitPendingDeletions_visitor src t st)
          \<longrightarrow> store_forEach pendingAbsentQuery v (rangeDeletions opCtx) (opCtx, [])
              = submitPendingDeletions_enumerate src opCtx"
  proof (intro allI impI)
    fix v :: "'a RangeDeletionTask \<Rightarrow> 'a node \<times> 'a RangeDeletionTask list
                \<Rightarrow> ('a node \<times> 'a RangeDeletionTask list) \<times> (error + bool)"
    assume agree: "\<forall>t st. getPending t = None \<longrightarrow> v t st = submitPendingDeletions_visitor src t st"
    have "forEach_docs v (filter pendingAbsentQuery (rangeDeletions opCtx)) (opCtx, [])
          = forEach_docs (submitPendingDeletions_visitor src)
              (filter pendingAbsentQuery (rangeDeletions opCtx)) (opCtx, [])"
    proof (rule forEach_docs_cong)
      fix d st
      assume "d \<in> set (filter pendingAbsentQuery (rangeDeletions opCtx))"
      then have "getPending d = None" by (simp add: pendingAbsentQuery_def)
      with agree show "v d st = submitPendingDeletions_visitor src d st" by blast
    qed
    then show "store_forEach pendingAbsentQuery v (rangeDeletions opCtx) (opCtx, [])
              = submitPendingDeletions_enumerate src opCtx"
      by (simp add: p2 store_forEach_def)
  qed
  from submitPendingDeletions_cleanups [of src opCtx] obtain new where
    new: "cleanUpRangeCalls (fst (submitPendingDeletions src opCtx)) = cleanUpRangeCalls opCtx @ new"
         "set new \<subseteq> cleanUpCall ` set (filter pendingAbsentQuery (rangeDeletions opCtx))"
    by blast
  have "\<forall>c \<in> set new. \<exists>t \<in> set (rangeDeletions opCtx). getPending t = None \<and> c = cleanUpCall t"
    using new(2) by (auto simp: pendingAbsentQuery_def)
  with new(1) have p4: "\<exists>new. cleanUpRangeCalls (fst (submitPendingDeletions src opCtx))
               = cleanUpRangeCalls opCtx @ new
           \<and> (\<forall>c \<in> set new. \<exists>t \<in> set (rangeDeletions opCtx).
                  getPending t = None \<and> c = cleanUpCall t)"
    by blast
  show ?thesis using p1 p2 p3 p4 by blast
qed

lemma Query_toBSON_self: "Query_toBSON t t"
  by (simp add: Query_toBSON_def split: option.splits)

lemma not_valid_removed:
  assumes ok: "\<forall>t \<in> set (rangeDeletions n). getPending t = None \<longrightarrow> refreshSucceeds src t"
      and t: "getPending t = None" "\<not> taskValid src (collections n) t"
  shows "t \<notin> set (rangeDeletions (fst (submitPendingDeletions src n)))"
proof
  assume "t \<in> set (rangeDeletions (fst (submitPendingDeletions src n)))"
  then have mem: "t \<in> set (rangeDeletions n)"
    and keep: "\<forall>r \<in> set (rangeDeletions n).
                 getPending r = None \<and> \<not> taskValid src (collections n) r \<longrightarrow> \<not> Query_toBSON r t"
    unfolding submitPendingDeletions_completes(2) [OF ok] by simp_all
  from keep mem t have "\<not> Query_toBSON t t" by blast
  then show False by (simp add: Query_toBSON_self)
qed

lemma valid_kept:
  assumes t: "t \<in> set (rangeDeletions n)" "getPending t = None" "taskValid src (collections n) t"
  shows "t \<in> set (rangeDeletions (fst (submitPendingDeletions src n)))"
proof (cases "\<forall>t \<in> set (rangeDeletions n). getPending t = None \<longrightarrow> refreshSucceeds src t")
  case True
  have "\<not> Query_toBSON r t" if r: "getPending r = None" "\<not> taskValid src (collections n) r" for r
  proof
    assume q: "Query_toBSON r t"
    then have "getNss t = getNss r" "getCollectionUuid t = getCollectionUuid r"
      by (simp_all add: Query_toBSON_def)
    then have "taskValid src (collections n) r" using t(3) by (simp add: taskValid_def)
    with r(2) show False by simp
  qed
  then show ?thesis
    unfolding submitPendingDeletions_completes(2) [OF True] using t(1) by auto
next
  case False
  then show ?thesis using submitPendingDeletions_raises(2) [OF False] t(1) by simp
qed

lemma second_pass_store:
  "rangeDeletions (fst (submitPendingDeletions src (fst (submitPendingDeletions src n))))
     = rangeDeletions (fst (submitPendingDeletions src n))"
proof -
  let ?n1 = "fst (submitPendingDeletions src n)"
  show ?thesis
  proof (cases "\<forall>t \<in> set (rangeDeletions ?n1). getPending t = None \<longrightarrow> refreshSucceeds src t")
    case ok2: True
    have col: "collections ?n1 = collections n" by (rule submitPendingDeletions_collections)
    have none_invalid: "taskValid src (collections ?n1) r"
      if r: "r \<in> set (rangeDeletions ?n1)" "getPending r = None" for r
    proof (cases "\<forall>t \<in> set (rangeDeletions n). getPending t = None \<longrightarrow> refreshSucceeds src t")
      case True
      show ?thesis
      proof (rule ccontr)
        assume "\<not> taskValid src (collections ?n1) r"
        then have "\<not> taskValid src (collections n) r" by (simp add: col)
        from not_valid_removed [OF True r(2) this] r(1) show False by simp
      qed
    next
      case False
      have same: "rangeDeletions ?n1 = rangeDeletions n"
        by (rule submitPendingDeletions_raises(2) [OF False])
      from ok2 False show ?thesis unfolding same by simp
    qed
    have "filter (\<lambda>d. \<forall>r \<in> set (rangeDeletions ?n1).
                       getPending r = None \<and> \<not> taskValid src (collections ?n1) r
                       \<longrightarrow> \<not> Query_toBSON r d) (rangeDeletions ?n1) = rangeDeletions ?n1"
      unfolding filter_id_conv using none_invalid by blast
    then show ?thesis unfolding submitPendingDeletions_completes(2) [OF ok2] .
  next
    case False
    then show ?thesis by (rule submitPendingDeletions_raises(2))
  qed
qed


lemmas sweep_defs =
  submitPendingDeletions_def submitPendingDeletions_enumerate_def store_forEach_def
  submitPendingDeletions_visitor_def forceShardFilteringMetadataRefresh_def
  submitRangeDeletionTask_def store_remove_def Query_toBSON_def pendingAbsentQuery_def
  mkNode_def mkTask_def catalog1_def

text \<open>
  A store with the pending task of migration \<open>1\<close> and the ready task of migration
  \<open>2\<close>: only the range \<open>[30, 40)\<close> of the ready task is handed to \<open>cleanUpRange\<close>.
\<close>

theorem pending_gate_witness:
  "getPending (mkTask 1 ''db.coll'' 7 10 20 (Some True)) \<noteq> None
   \<and> mkTask 1 ''db.coll'' 7 10 20 (Some True)
       \<in> set (rangeDeletions (mkNode [mkTask 1 ''db.coll'' 7 10 20 (Some True),
                                      mkTask 2 ''db.coll'' 7 30 40 None] catalog1))
   \<and> mkTask 1 ''db.coll'' 7 10 20 (Some True)
       \<notin> set (filter pendingAbsentQuery
                 (rangeDeletions (mkNode [mkTask 1 ''db.coll'' 7 10 20 (Some True),
                                          mkTask 2 ''db.coll'' 7 30 40 None] catalog1)))
   \<and> cleanUpRangeCalls (fst (submitPendingDeletions (\<lambda>nss. None)
          (mkNode [mkTask 1 ''db.coll'' 7 10 20 (Some True),
                   mkTask 2 ''db.coll'' 7 30 40 None] catalog1)))
       = [(''db.coll'', \<lparr>getMin = 30, getMax = 40\<rparr>, CSR_kDelayed)]"
  using pending_gate [of "mkNode [mkTask 1 ''db.coll'' 7 10 20 (Some True),
                                  mkTask 2 ''db.coll'' 7 30 40 None] catalog1" "\<lambda>nss. None"]
  by (simp add: sweep_defs)

section \<open>Tasks whose filtering metadata is unknown\<close>




section \<open>Stale tasks\<close>

text \<open>
  Claim C6. For a task whose collection does not exist, or exists with a uuid other than
  the task's, \<open>submitRangeDeletionTask\<close> returns false and leaves the node as it is.
  \<open>submitPendingDeletions\<close> raises exactly when the metadata refresh of some ready
  task's namespace fails, so never because a task is stale; when it returns normally,
  no stale ready task is left in the store. The removals come after the enumeration: the
  enumeration leaves the store as it was, and when the routine raises, which can only
  happen during the enumeration, the store is unchanged.
\<close>

theorem stale_tasks_removed:
  "(staleTask (collections opCtx) t \<longrightarrow> submitRangeDeletionTask opCtx t = (opCtx, False))
   \<and> (snd (submitPendingDeletions src opCtx) = None
        \<longleftrightarrow> (\<forall>r \<in> set (rangeDeletions opCtx). getPending r = None \<longrightarrow> refreshSucceeds src r))
   \<and> (snd (submitPendingDeletions src opCtx) = None
        \<longrightarrow> (\<forall>r \<in> set (rangeDeletions opCtx).
               getPending r = None \<and> staleTask (collections opCtx) r
               \<longrightarrow> r \<notin> set (rangeDeletions (fst (submitPendingDeletions src opCtx)))))
   \<and> rangeDeletions (fst (fst (submitPendingDeletions_enumerate src opCtx)))
       = rangeDeletions opCtx
   \<and> (snd (submitPendingDeletions src opCtx) \<noteq> None
        \<longrightarrow> rangeDeletions (fst (submitPendingDeletions src opCtx)) = rangeDeletions opCtx)"
proof -
  let ?ok = "\<forall>r \<in> set (rangeDeletions opCtx). getPending r = None \<longrightarrow> refreshSucceeds src r"
  have a: "staleTask (collections opCtx) t \<longrightarrow> submitRangeDeletionTask opCtx t = (opCtx, False)"
    by (auto simp: staleTask_def submitRangeDeletionTask_def split: option.splits)
  have b: "snd (submitPendingDeletions src opCtx) = None \<longleftrightarrow> ?ok"
    using submitPendingDeletions_completes(1) [of opCtx src]
      submitPendingDeletions_raises(1) [of opCtx src] by blast
  have c: "r \<notin> set (rangeDeletions (fst (submitPendingDeletions src opCtx)))"
    if "snd (submitPendingDeletions src opCtx) = None" "getPending r = None"
       "staleTask (collections opCtx) r" for r
  proof -
    have ok: ?ok using that(1) b by simp
    have "\<not> taskValid src (collections opCtx) r"
      using that(3) by (simp add: staleTask_def taskValid_def)
    from not_valid_removed [OF ok that(2) this] show ?thesis .
  qed
  have d: "rangeDeletions (fst (fst (submitPendingDeletions_enumerate src opCtx)))
             = rangeDeletions opCtx"
    by (simp add: submitPendingDeletions_enumerate_def store_forEach_def enumerate_store)
  have e: "snd (submitPendingDeletions src opCtx) \<noteq> None
        \<longrightarrow> rangeDeletions (fst (submitPendingDeletions src opCtx)) = rangeDeletions opCtx"
  proof
    assume "snd (submitPendingDeletions src opCtx) \<noteq> None"
    then have "\<not> ?ok" using b by simp
    from submitPendingDeletions_raises(2) [OF this]
    show "rangeDeletions (fst (submitPendingDeletions src opCtx)) = rangeDeletions opCtx" .
  qed
  show ?thesis using a b c d e by blast
qed

text \<open>
  Three ready tasks: the collection of the first does not exist, the second records the
  uuid \<open>8\<close> of a collection whose uuid is \<open>7\<close>, the third is valid. The routine
  returns normally and only the third task is left.
\<close>

theorem stale_tasks_removed_witness:
  "staleTask catalog1 (mkTask 3 ''db.gone'' 9 0 5 None)
   \<and> staleTask catalog1 (mkTask 4 ''db.coll'' 8 0 5 None)
   \<and> snd (submitRangeDeletionTask
        (mkNode [mkTask 3 ''db.gone'' 9 0 5 None, mkTask 4 ''db.coll'' 8 0 5 None,
                 mkTask 2 ''db.coll'' 7 30 40 None] catalog1)
        (mkTask 4 ''db.coll'' 8 0 5 None)) = False
   \<and> submitPendingDeletions (\<lambda>nss. None)
        (mkNode [mkTask 3 ''db.gone'' 9 0 5 None, mkTask 4 ''db.coll'' 8 0 5 None,
                 mkTask 2 ''db.coll'' 7 30 40 None] catalog1)
       = (\<lparr>rangeDeletions = [mkTask 2 ''db.coll'' 7 30 40 None], migrationCoordinators = [],
           collections = catalog1,
           filteringMetadataKnown = (\<lambda>nss. nss = ''db.gone'' \<or> nss = ''db.coll''),
           cleanUpRangeCalls = [(''db.coll'', \<lparr>getMin = 30, getMax = 40\<rparr>, CSR_kDelayed)]\<rparr>, None)"
  using stale_tasks_removed [of "mkNode [mkTask 3 ''db.gone'' 9 0 5 None,
           mkTask 4 ''db.coll'' 8 0 5 None, mkTask 2 ''db.coll'' 7 30 40 None] catalog1"
         "mkTask 4 ''db.coll'' 8 0 5 None" "\<lambda>nss. None"]
  by (simp add: sweep_defs staleTask_def fun_eq_iff)

section \<open>Running the sweep twice\<close>

text \<open>
  Claim C8. With the same catalog and the same answers of the metadata refresh, a second
  run of \<open>submitPendingDeletions\<close> right after the first leaves the store of tasks as
  the first run left it. When the first run returns normally, the stale ready tasks are
  absent after the first run and after the second. A ready task that is valid (its
  collection exists with its uuid and the refresh of its namespace succeeds, after which
  its metadata is known) is in the store after the first run and after the second.
\<close>

theorem sweep_twice:
  "rangeDeletions (fst (submitPendingDeletions src (fst (submitPendingDeletions src opCtx))))
     = rangeDeletions (fst (submitPendingDeletions src opCtx))
   \<and> (snd (submitPendingDeletions src opCtx) = None
        \<longrightarrow> (\<forall>t \<in> set (rangeDeletions opCtx).
               getPending t = None \<and> staleTask (collections opCtx) t
               \<longrightarrow> t \<notin> set (rangeDeletions (fst (submitPendingDeletions src opCtx)))
                 \<and> t \<notin> set (rangeDeletions (fst (submitPendingDeletions src
                                (fst (submitPendingDeletions src opCtx)))))))
   \<and> (\<forall>t \<in> set (rangeDeletions opCtx).
         getPending t = None \<and> taskValid src (collections opCtx) t
         \<longrightarrow> t \<in> set (rangeDeletions (fst (submitPendingDeletions src opCtx)))
           \<and> t \<in> set (rangeDeletions (fst (submitPendingDeletions src
                          (fst (submitPendingDeletions src opCtx))))))"
proof -
  let ?s1 = "rangeDeletions (fst (submitPendingDeletions src opCtx))"
  let ?s2 = "rangeDeletions (fst (submitPendingDeletions src (fst (submitPendingDeletions src opCtx))))"
  have same: "?s2 = ?s1" by (rule second_pass_store)
  have stale: "t \<notin> set ?s1"
    if "snd (submitPendingDeletions src opCtx) = None" "getPending t = None"
       "staleTask (collections opCtx) t" for t
  proof -
    have ok: "\<forall>r \<in> set (rangeDeletions opCtx). getPending r = None \<longrightarrow> refreshSucceeds src r"
      using submitPendingDeletions_raises(1) [of opCtx src] that(1) by blast
    have "\<not> taskValid src (collections opCtx) t"
      using that(3) by (simp add: staleTask_def taskValid_def)
    from not_valid_removed [OF ok that(2) this] show ?thesis .
  qed
  have valid: "t \<in> set ?s1"
    if "t \<in> set (rangeDeletions opCtx)" "getPending t = None"
       "taskValid src (collections opCtx) t" for t
    using valid_kept [OF that] .
  show ?thesis unfolding same using stale valid by blast
qed

text \<open>A stale and a valid task: the stores after one run and after two runs.\<close>

theorem sweep_twice_witness:
  "rangeDeletions (fst (submitPendingDeletions (\<lambda>nss. None)
      (mkNode [mkTask 3 ''db.gone'' 9 0 5 None, mkTask 2 ''db.coll'' 7 30 40 None] catalog1)))
     = [mkTask 2 ''db.coll'' 7 30 40 None]
   \<and> rangeDeletions (fst (submitPendingDeletions (\<lambda>nss. None)
        (fst (submitPendingDeletions (\<lambda>nss. None)
           (mkNode [mkTask 3 ''db.gone'' 9 0 5 None, mkTask 2 ''db.coll'' 7 30 40 None] catalog1)))))
     = [mkTask 2 ''db.coll'' 7 30 40 None]
   \<and> snd (submitPendingDeletions (\<lambda>nss. None)
        (mkNode [mkTask 3 ''db.gone'' 9 0 5 None, mkTask 2 ''db.coll'' 7 30 40 None] catalog1))
     = None
   \<and> staleTask catalog1 (mkTask 3 ''db.gone'' 9 0 5 None)
   \<and> taskValid (\<lambda>nss. None) catalog1 (mkTask 2 ''db.coll'' 7 30 40 None)"
proof -
  let ?n = "mkNode [mkTask 3 ''db.gone'' 9 0 5 None, mkTask 2 ''db.coll'' 7 30 40 None] catalog1"
  have first: "rangeDeletions (fst (submitPendingDeletions (\<lambda>nss. None) ?n))
                 = [mkTask 2 ''db.coll'' 7 30 40 None]"
    and ok: "snd (submitPendingDeletions (\<lambda>nss. None) ?n) = None"
    by (simp_all add: sweep_defs)
  have st: "staleTask catalog1 (mkTask 3 ''db.gone'' 9 0 5 None)"
    and va: "taskValid (\<lambda>nss. None) catalog1 (mkTask 2 ''db.coll'' 7 30 40 None)"
    by (simp_all add: staleTask_def taskValid_def mkTask_def catalog1_def)
  show ?thesis
    using sweep_twice [of "\<lambda>nss. None" ?n] first ok st va by simp
qed


section \<open>Duplicate intent\<close>

lemma store_add_duplicate:
  "\<exists>d' \<in> set s. idOf d' = idOf d \<Longrightarrow> store_add idOf d s = Inl DuplicateKey"
  by (simp add: store_add_def)

lemma store_add_fresh:
  "\<forall>d' \<in> set s. idOf d' \<noteq> idOf d \<Longrightarrow> store_add idOf d s = Inr (s @ [d])"
  by (auto simp: store_add_def)

text \<open>
  Claim C7. Inserting a migration coordinator document, or a range deletion task, whose
  id is already in its store raises the error with location code \<open>31374\<close>, or
  \<open>31375\<close>, which is not the duplicate-key error of the store, and leaves the node
  unchanged. Starting from a store without the id: the first insert succeeds, a second
  insert with the same id raises that error and changes nothing, and the store holds
  exactly one document for the id, the first one.
\<close>

theorem duplicate_intent:
  "((\<exists>d \<in> set (migrationCoordinators opCtx). getId_doc d = getId_doc migrationDoc)
      \<longrightarrow> persistMigrationCoordinatorLocally opCtx migrationDoc = (opCtx, Some (Location 31374)))
   \<and> ((\<exists>t \<in> set (rangeDeletions opCtx). getId t = getId deletionTask)
      \<longrightarrow> persistRangeDeletionTaskLocally opCtx deletionTask = (opCtx, Some (Location 31375)))
   \<and> Location 31374 \<noteq> DuplicateKey \<and> Location 31375 \<noteq> DuplicateKey
   \<and> ((\<forall>d \<in> set (migrationCoordinators opCtx). getId_doc d \<noteq> getId_doc migrationDoc)
        \<and> getId_doc again = getId_doc migrationDoc
      \<longrightarrow> (\<exists>opCtx1.
             persistMigrationCoordinatorLocally opCtx migrationDoc = (opCtx1, None)
           \<and> persistMigrationCoordinatorLocally opCtx1 again = (opCtx1, Some (Location 31374))
           \<and> filter (\<lambda>d. getId_doc d = getId_doc migrationDoc) (migrationCoordinators opCtx1)
               = [migrationDoc]))
   \<and> ((\<forall>t \<in> set (rangeDeletions opCtx). getId t \<noteq> getId deletionTask)
        \<and> getId againTask = getId deletionTask
      \<longrightarrow> (\<exists>opCtx1.
             persistRangeDeletionTaskLocally opCtx deletionTask = (opCtx1, None)
           \<and> persistRangeDeletionTaskLocally opCtx1 againTask = (opCtx1, Some (Location 31375))
           \<and> filter (\<lambda>t. getId t = getId deletionTask) (rangeDeletions opCtx1)
               = [deletionTask]))"
proof -
  have a: "(\<exists>d \<in> set (migrationCoordinators opCtx). getId_doc d = getId_doc migrationDoc)
      \<longrightarrow> persistMigrationCoordinatorLocally opCtx migrationDoc = (opCtx, Some (Location 31374))"
    by (simp add: persistMigrationCoordinatorLocally_def store_add_duplicate)
  have b: "(\<exists>t \<in> set (rangeDeletions opCtx). getId t = getId deletionTask)
      \<longrightarrow> persistRangeDeletionTaskLocally opCtx deletionTask = (opCtx, Some (Location 31375))"
    by (simp add: persistRangeDeletionTaskLocally_def store_add_duplicate)
  have c: "\<exists>opCtx1.
             persistMigrationCoordinatorLocally opCtx migrationDoc = (opCtx1, None)
           \<and> persistMigrationCoordinatorLocally opCtx1 again = (opCtx1, Some (Location 31374))
           \<and> filter (\<lambda>d. getId_doc d = getId_doc migrationDoc) (migrationCoordinators opCtx1)
               = [migrationDoc]"
    if fresh: "\<forall>d \<in> set (migrationCoordinators opCtx). getId_doc d \<noteq> getId_doc migrationDoc"
      and same: "getId_doc again = getId_doc migrationDoc"
  proof -
    let ?n1 = "opCtx\<lparr>migrationCoordinators := migrationCoordinators opCtx @ [migrationDoc]\<rparr>"
    have 1: "persistMigrationCoordinatorLocally opCtx migrationDoc = (?n1, None)"
      by (simp add: persistMigrationCoordinatorLocally_def store_add_fresh [OF fresh])
    have "\<exists>d \<in> set (migrationCoordinators ?n1). getId_doc d = getId_doc again"
      using same by simp
    then have 2: "persistMigrationCoordinatorLocally ?n1 again = (?n1, Some (Location 31374))"
      by (simp add: persistMigrationCoordinatorLocally_def store_add_duplicate)
    have "filter (\<lambda>d. getId_doc d = getId_doc migrationDoc) (migrationCoordinators opCtx) = []"
      using fresh by (simp add: filter_empty_conv)
    then have 3: "filter (\<lambda>d. getId_doc d = getId_doc migrationDoc) (migrationCoordinators ?n1)
               = [migrationDoc]"
      by simp
    show ?thesis using 1 2 3 by blast
  qed
  have d: "\<exists>opCtx1.
             persistRangeDeletionTaskLocally opCtx deletionTask = (opCtx1, None)
           \<and> persistRangeDeletionTaskLocally opCtx1 againTask = (opCtx1, Some (Location 31375))
           \<and> filter (\<lambda>t. getId t = getId deletionTask) (rangeDeletions opCtx1)
               = [deletionTask]"
    if fresh: "\<forall>t \<in> set (rangeDeletions opCtx). getId t \<noteq> getId deletionTask"
      and same: "getId againTask = getId deletionTask"
  proof -
    let ?n1 = "opCtx\<lparr>rangeDeletions := rangeDeletions opCtx @ [deletionTask]\<rparr>"
    have 1: "persistRangeDeletionTaskLocally opCtx deletionTask = (?n1, None)"
      by (simp add: persistRangeDeletionTaskLocally_def store_add_fresh [OF fresh])
    have "\<exists>t \<in> set (rangeDeletions ?n1). getId t = getId againTask"
      using same by simp
    then have 2: "persistRangeDeletionTaskLocally ?n1 againTask = (?n1, Some (Location 31375))"
      by (simp add: persistRangeDeletionTaskLocally_def store_add_duplicate)
    have "filter (\<lambda>t. getId t = getId deletionTask) (rangeDeletions opCtx) = []"
      using fresh by (simp add: filter_empty_conv)
    then have 3: "filter (\<lambda>t. getId t = getId deletionTask) (rangeDeletions ?n1)
               = [deletionTask]"
      by simp
    show ?thesis using 1 2 3 by blast
  qed
  show ?thesis using a b c d by blast
qed

text \<open>Migration \<open>1\<close> persisted twice, in each of the two stores.\<close>

theorem duplicate_intent_witness:
  "persistRangeDeletionTaskLocally (mkNode [] catalog1) (mkTask 1 ''db.coll'' 7 10 20 (Some True))
     = (mkNode [mkTask 1 ''db.coll'' 7 10 20 (Some True)] catalog1, None)
   \<and> persistRangeDeletionTaskLocally (mkNode [mkTask 1 ''db.coll'' 7 10 20 (Some True)] catalog1)
        (mkTask 1 ''db.coll'' 7 10 20 (Some True))
     = (mkNode [mkTask 1 ''db.coll'' 7 10 20 (Some True)] catalog1, Some (Location 31375))
   \<and> persistMigrationCoordinatorLocally (mkNode [] catalog1) (migrationInfo coordinator1)
     = ((mkNode [] catalog1)\<lparr>migrationCoordinators := [migrationInfo coordinator1]\<rparr>, None)
   \<and> persistMigrationCoordinatorLocally
        ((mkNode [] catalog1)\<lparr>migrationCoordinators := [migrationInfo coordinator1]\<rparr>)
        (migrationInfo coordinator1)
     = ((mkNode [] catalog1)\<lparr>migrationCoordinators := [migrationInfo coordinator1]\<rparr>,
        Some (Location 31374))"
  using duplicate_intent [of "mkNode [] catalog1" "migrationInfo coordinator1"
          "mkTask 1 ''db.coll'' 7 10 20 (Some True)" "migrationInfo coordinator1"
          "mkTask 1 ''db.coll'' 7 10 20 (Some True)"]
    duplicate_intent [of "mkNode [mkTask 1 ''db.coll'' 7 10 20 (Some True)] catalog1"
          "migrationInfo coordinator1" "mkTask 1 ''db.coll'' 7 10 20 (Some True)"
          "migrationInfo coordinator1" "mkTask 1 ''db.coll'' 7 10 20 (Some True)"]
  by (simp add: persistRangeDeletionTaskLocally_def persistMigrationCoordinatorLocally_def
        store_add_def mkNode_def)


section \<open>The frame of markAsReadyRangeDeletionTaskLocally\<close>

lemma update_first_length: "length (update_first q u s) = length s"
  by (induction s) auto

lemma update_first_nth:
  "i < length s \<Longrightarrow>
     update_first q u s ! i = s ! i \<or> (q (s ! i) \<and> update_first q u s ! i = u (s ! i))"
proof (induction s arbitrary: i)
  case Nil
  then show ?case by simp
next
  case (Cons x xs)
  show ?case
  proof (cases i)
    case 0
    then show ?thesis by simp
  next
    case (Suc j)
    then have "j < length xs" using Cons.prems by simp
    from Cons.IH [OF this] show ?thesis using Suc by auto
  qed
qed

lemma update_first_changes:
  "length (filter (\<lambda>(a, b). a \<noteq> b) (zip s (update_first q u s))) \<le> 1"
proof (induction s)
  case Nil
  then show ?case by simp
next
  case (Cons x xs)
  have same: "filter (\<lambda>(a, b). a \<noteq> b) (zip ys ys) = []" for ys :: "'a list"
    by (induction ys) auto
  show ?case using Cons by (simp add: same)
qed

text \<open>
  Claim C9. \<open>markAsReadyRangeDeletionTaskLocally\<close> keeps the number and the order of
  the tasks. Each task is unchanged, or has the id \<open>migrationId\<close> and is changed only
  in that its \<open>pending\<close> field is unset; at most one task is changed. The id, the
  collection uuid, the namespace, the range and \<open>whenToClean\<close> of every task are
  unchanged, and so is the other collection of the node.
\<close>

theorem markAsReady_frame:
  "length (rangeDeletions (markAsReadyRangeDeletionTaskLocally opCtx migrationId))
     = length (rangeDeletions opCtx)
   \<and> (\<forall>i < length (rangeDeletions opCtx).
        rangeDeletions (markAsReadyRangeDeletionTaskLocally opCtx migrationId) ! i
          = rangeDeletions opCtx ! i
        \<or> (getId (rangeDeletions opCtx ! i) = migrationId
           \<and> rangeDeletions (markAsReadyRangeDeletionTaskLocally opCtx migrationId) ! i
               = (rangeDeletions opCtx ! i)\<lparr>getPending := None\<rparr>))
   \<and> length (filter (\<lambda>(a, b). a \<noteq> b)
        (zip (rangeDeletions opCtx)
             (rangeDeletions (markAsReadyRangeDeletionTaskLocally opCtx migrationId)))) \<le> 1
   \<and> map getId (rangeDeletions (markAsReadyRangeDeletionTaskLocally opCtx migrationId))
       = map getId (rangeDeletions opCtx)
   \<and> map getCollectionUuid (rangeDeletions (markAsReadyRangeDeletionTaskLocally opCtx migrationId))
       = map getCollectionUuid (rangeDeletions opCtx)
   \<and> map getNss (rangeDeletions (markAsReadyRangeDeletionTaskLocally opCtx migrationId))
       = map getNss (rangeDeletions opCtx)
   \<and> map getRange (rangeDeletions (markAsReadyRangeDeletionTaskLocally opCtx migrationId))
       = map getRange (rangeDeletions opCtx)
   \<and> map getWhenToClean (rangeDeletions (markAsReadyRangeDeletionTaskLocally opCtx migrationId))
       = map getWhenToClean (rangeDeletions opCtx)
   \<and> migrationCoordinators (markAsReadyRangeDeletionTaskLocally opCtx migrationId)
       = migrationCoordinators opCtx"
proof -
  let ?s = "rangeDeletions opCtx"
  let ?s' = "update_first (\<lambda>t. getId t = migrationId) unsetPending ?s"
  have eq: "rangeDeletions (markAsReadyRangeDeletionTaskLocally opCtx migrationId) = ?s'"
    by (simp add: markAsReadyRangeDeletionTaskLocally_def store_update_def)
  have len: "length ?s' = length ?s" by (rule update_first_length)
  have nth: "\<forall>i < length ?s. ?s' ! i = ?s ! i
        \<or> (getId (?s ! i) = migrationId \<and> ?s' ! i = (?s ! i)\<lparr>getPending := None\<rparr>)"
    using update_first_nth [of _ ?s "\<lambda>t. getId t = migrationId" unsetPending]
    by (auto simp: unsetPending_def)
  have one: "length (filter (\<lambda>(a, b). a \<noteq> b) (zip ?s ?s')) \<le> 1"
    by (rule update_first_changes)
  have f1: "map getId ?s' = map getId ?s"
    by (rule update_first_ids) (simp add: unsetPending_def)
  have f2: "map getCollectionUuid ?s' = map getCollectionUuid ?s"
    by (rule update_first_ids) (simp add: unsetPending_def)
  have f3: "map getNss ?s' = map getNss ?s"
    by (rule update_first_ids) (simp add: unsetPending_def)
  have f4: "map getRange ?s' = map getRange ?s"
    by (rule update_first_ids) (simp add: unsetPending_def)
  have f5: "map getWhenToClean ?s' = map getWhenToClean ?s"
    by (rule update_first_ids) (simp add: unsetPending_def)
  have mc: "migrationCoordinators (markAsReadyRangeDeletionTaskLocally opCtx migrationId)
       = migrationCoordinators opCtx"
    by (simp add: markAsReadyRangeDeletionTaskLocally_def)
  show ?thesis unfolding eq using len nth one f1 f2 f3 f4 f5 mc by simp
qed

text \<open>Two pending tasks; marking migration \<open>1\<close> as ready changes only its task.\<close>

theorem markAsReady_frame_witness:
  "rangeDeletions (markAsReadyRangeDeletionTaskLocally
      (mkNode [mkTask 2 ''db.coll'' 7 30 40 (Some True), mkTask 1 ''db.coll'' 7 10 20 (Some True)]
         catalog1) 1)
     = [mkTask 2 ''db.coll'' 7 30 40 (Some True), mkTask 1 ''db.coll'' 7 10 20 None]"
  using markAsReady_frame [of "mkNode [mkTask 2 ''db.coll'' 7 30 40 (Some True),
          mkTask 1 ''db.coll'' 7 10 20 (Some True)] catalog1" 1]
  by (simp add: markAsReadyRangeDeletionTaskLocally_def store_update_def unsetPending_def
        mkNode_def mkTask_def)


section \<open>setConcerns\<close>

lemma getDefault_opt_after_set:
  "getDefault_opt (setDefault rwc this) = (Some rwc, this\<lparr>defaults := Some rwc\<rparr>)"
  by (simp add: getDefault_opt_def setDefault_def revalidate_def acquire_def)

text \<open>
  Claim C10. While a current default exists, \<open>setConcerns\<close> called with a suitable
  write concern and no read concern stores and returns a default whose read concern is
  the current default's and whose write concern is the supplied one; called with a
  suitable read concern and no write concern, it stores and returns a default whose
  read concern is the supplied one and whose write concern is the current default's.
  Called with neither, it fails the invariant.
\<close>

theorem setConcerns_carries_forward:
  "(fst (getDefault_opt this) = Some cur \<and> checkSuitabilityAsDefault_wc w = None
      \<longrightarrow> (\<exists>stored this'.
             setConcerns this now epoch None (Some w) = Inr (stored, this')
           \<and> defaults this' = Some stored
           \<and> getDefaultReadConcern stored = getDefaultReadConcern cur
           \<and> getDefaultWriteConcern stored = Some w))
   \<and> (fst (getDefault_opt this) = Some cur \<and> checkSuitabilityAsDefault_rc r = None
      \<longrightarrow> (\<exists>stored this'.
             setConcerns this now epoch (Some r) None = Inr (stored, this')
           \<and> defaults this' = Some stored
           \<and> getDefaultReadConcern stored = Some r
           \<and> getDefaultWriteConcern stored = getDefaultWriteConcern cur))
   \<and> setConcerns this now epoch None None = Inl InvariantFailure"
proof -
  have a: "\<exists>stored this'.
             setConcerns this now epoch None (Some w) = Inr (stored, this')
           \<and> defaults this' = Some stored
           \<and> getDefaultReadConcern stored = getDefaultReadConcern cur
           \<and> getDefaultWriteConcern stored = Some w"
    if cur: "fst (getDefault_opt this) = Some cur" and ok: "checkSuitabilityAsDefault_wc w = None"
  proof -
    obtain this1 where g: "getDefault_opt this = (Some cur, this1)"
      using cur by (cases "getDefault_opt this") auto
    show ?thesis
      by (simp add: setConcerns_def ok g getDefault_opt_after_set Let_def)
  qed
  have b: "\<exists>stored this'.
             setConcerns this now epoch (Some r) None = Inr (stored, this')
           \<and> defaults this' = Some stored
           \<and> getDefaultReadConcern stored = Some r
           \<and> getDefaultWriteConcern stored = getDefaultWriteConcern cur"
    if cur: "fst (getDefault_opt this) = Some cur" and ok: "checkSuitabilityAsDefault_rc r = None"
  proof -
    obtain this1 where g: "getDefault_opt this = (Some cur, this1)"
      using cur by (cases "getDefault_opt this") auto
    show ?thesis
      by (simp add: setConcerns_def ok g getDefault_opt_after_set Let_def)
  qed
  have c: "setConcerns this now epoch None None = Inl InvariantFailure"
    by (simp add: setConcerns_def)
  show ?thesis using a b c by blast
qed

text \<open>
  The current default is read concern \<open>majority\<close> and write concern \<open>w: 1\<close>. Setting
  only the write concern keeps the read concern, setting only the read concern keeps the
  write concern.
\<close>

theorem setConcerns_carries_forward_witness:
  "fst (getDefault_opt defaults1) = Some currentDefault1
   \<and> setConcerns defaults1 5 6 None (Some \<lparr>wMode = ''majority'', wNumNodes = 0\<rparr>)
     = Inr (\<lparr>getDefaultReadConcern = getDefaultReadConcern currentDefault1,
             getDefaultWriteConcern = Some \<lparr>wMode = ''majority'', wNumNodes = 0\<rparr>,
             getEpoch = Some 6, getSetTime = Some 5, getLocalSetTime = Some 5\<rparr>,
            \<lparr>defaults = Some \<lparr>getDefaultReadConcern = getDefaultReadConcern currentDefault1,
                getDefaultWriteConcern = Some \<lparr>wMode = ''majority'', wNumNodes = 0\<rparr>,
                getEpoch = Some 6, getSetTime = Some 5, getLocalSetTime = Some 5\<rparr>,
             lookupFn = None\<rparr>)
   \<and> setConcerns defaults1 5 6
        (Some \<lparr>getLevel = kLocalReadConcern, getArgsOpTime = None,
               getArgsAfterClusterTime = None, getArgsAtClusterTime = None\<rparr>) None
     = Inr (\<lparr>getDefaultReadConcern =
               Some \<lparr>getLevel = kLocalReadConcern, getArgsOpTime = None,
                     getArgsAfterClusterTime = None, getArgsAtClusterTime = None\<rparr>,
             getDefaultWriteConcern = Some \<lparr>wMode = [], wNumNodes = 1\<rparr>,
             getEpoch = Some 6, getSetTime = Some 5, getLocalSetTime = Some 5\<rparr>,
            \<lparr>defaults = Some \<lparr>getDefaultReadConcern =
                  Some \<lparr>getLevel = kLocalReadConcern, getArgsOpTime = None,
                        getArgsAfterClusterTime = None, getArgsAtClusterTime = None\<rparr>,
                getDefaultWriteConcern = Some \<lparr>wMode = [], wNumNodes = 1\<rparr>,
                getEpoch = Some 6, getSetTime = Some 5, getLocalSetTime = Some 5\<rparr>,
             lookupFn = None\<rparr>)"
  using setConcerns_carries_forward [of defaults1 currentDefault1
     "\<lparr>wMode = ''majority'', wNumNodes = 0\<rparr>" 5 6
     "\<lparr>getLevel = kLocalReadConcern, getArgsOpTime = None,
       getArgsAfterClusterTime = None, getArgsAtClusterTime = None\<rparr>"]
  by (simp add: setConcerns_def getDefault_opt_def acquire_def setDefault_def revalidate_def
        checkSuitabilityAsDefault_wc_def checkSuitabilityAsDefault_rc_def
        isSuitableReadConcernLevel_def kReadConcernLevelsDisallowedAsDefault_def
        defaults1_def currentDefault1_def Let_def)


end
